theory Spec2Isabelle
  imports Main "HOL-Library.Word"
begin

section \<open>The size test (tst-size.c)\<close>

subsection \<open>Code execution\<close>

text \<open>
  The two operations of the size test. \<^verbatim>\<open>tst_size_opcode_execute\<close> is the execute
  callback of exactly these two; it tells them apart by comparing the opcode pointer with
  \<^verbatim>\<open>&tst_size_over_opcode\<close>.
\<close>

datatype sieve_opcode = Tst_size_over_opcode | Tst_size_under_opcode

fun mnemonic :: "sieve_opcode \<Rightarrow> string" where
  "mnemonic Tst_size_over_opcode = ''SIZE-OVER''"
| "mnemonic Tst_size_under_opcode = ''SIZE-UNDER''"

text \<open>
  \<^verbatim>\<open>sieve_size_t\<close> is declared in a header that is not among the sources, so its width
  is the type parameter \<open>'w\<close> (the record is generic in the type \<open>'s\<close> of sizes, used at
  \<open>'w word\<close>); \<^verbatim>\<open>uoff_t\<close>, the type of the physical size, is 64 bits wide.
  The runtime environment holds what the callback reads: the binary, seen through
  \<^verbatim>\<open>sieve_opr_number_read\<close> (at an address, the next address and the number read, or
  failure), the result of \<^verbatim>\<open>mail_get_physical_size\<close> on the message (\<open>None\<close> for a
  negative return), the test register of the interpreter, and what was printed.
\<close>

record 's sieve_runtime_env =
  opr_number_read :: "'s \<Rightarrow> ('s \<times> 's) option"
  physical_size :: "64 word option"
  test_result :: bool
  printed :: "string list"

definition tst_size_get :: "('w::len word) sieve_runtime_env \<Rightarrow> 'w word option" where
  "tst_size_get renv =
     (case physical_size renv of
        None \<Rightarrow> None
      | Some psize \<Rightarrow> Some (ucast psize))"

definition sieve_interpreter_set_test_result ::
  "'s sieve_runtime_env \<Rightarrow> bool \<Rightarrow> 's sieve_runtime_env" where
  "sieve_interpreter_set_test_result renv b = renv\<lparr>test_result := b\<rparr>"

text \<open>The callback returns its boolean, the address after the operand and the new state.\<close>

definition tst_size_opcode_execute ::
  "sieve_opcode \<Rightarrow> ('w::len word) sieve_runtime_env \<Rightarrow> 'w word \<Rightarrow>
     bool \<times> 'w word \<times> ('w word) sieve_runtime_env" where
  "tst_size_opcode_execute opcode renv0 address =
     (let renv = renv0\<lparr>printed := printed renv0 @ [mnemonic opcode]\<rparr> in
      case opr_number_read renv address of
        None \<Rightarrow> (False, address, renv)
      | Some (address', limit) \<Rightarrow>
          (case tst_size_get renv of
             None \<Rightarrow> (False, address', renv)
           | Some mail_size \<Rightarrow>
               if opcode = Tst_size_over_opcode
               then (True, address', sieve_interpreter_set_test_result renv (mail_size > limit))
               else (True, address', sieve_interpreter_set_test_result renv (mail_size < limit))))"

section \<open>Script execution (sieve.c)\<close>

text \<open>
  The exit codes \<^verbatim>\<open>SIEVE_EXEC_*\<close> are enumerators of a header that is not among the
  sources. They are parameters of the model; \<open>exit_codes_wf\<close> says what sieve.c relies on:
  they are distinct (they label the cases of one \<^verbatim>\<open>switch\<close>), success is positive
  (\<^verbatim>\<open>ret > 0\<close> guards the execution of the result) and the failures are not.
\<close>

record exit_codes =
  SIEVE_EXEC_OK :: int
  SIEVE_EXEC_FAILURE :: int
  SIEVE_EXEC_TEMP_FAILURE :: int
  SIEVE_EXEC_BIN_CORRUPT :: int
  SIEVE_EXEC_KEEP_FAILED :: int

definition exit_codes_wf :: "exit_codes \<Rightarrow> bool" where
  "exit_codes_wf c \<longleftrightarrow>
     distinct [SIEVE_EXEC_OK c, SIEVE_EXEC_FAILURE c, SIEVE_EXEC_TEMP_FAILURE c,
               SIEVE_EXEC_BIN_CORRUPT c, SIEVE_EXEC_KEEP_FAILED c] \<and>
     0 < SIEVE_EXEC_OK c \<and>
     SIEVE_EXEC_FAILURE c \<le> 0 \<and> SIEVE_EXEC_TEMP_FAILURE c \<le> 0 \<and>
     SIEVE_EXEC_BIN_CORRUPT c \<le> 0 \<and> SIEVE_EXEC_KEEP_FAILED c \<le> 0"

text \<open>
  The interpreter and the result object live in other files. One execution sees them
  through what their calls return: whether \<^verbatim>\<open>sieve_interpreter_create\<close> gave an
  interpreter, the status of \<^verbatim>\<open>sieve_interpreter_run\<close>, and the statuses that
  \<^verbatim>\<open>sieve_result_execute\<close> and \<^verbatim>\<open>sieve_result_implicit_keep\<close> return if called.
\<close>

record collaborators =
  interpreter_created :: bool
  interpreter_run :: int
  result_execute :: int
  result_implicit_keep :: int

text \<open>The calls made on the result object, in order.\<close>

datatype result_call = Result_execute | Result_implicit_keep | Result_set_keep_action

definition sieve_run :: "exit_codes \<Rightarrow> collaborators \<Rightarrow> int" where
  "sieve_run c env =
     (if \<not> interpreter_created env then SIEVE_EXEC_BIN_CORRUPT c
      else interpreter_run env)"

definition sieve_execute :: "exit_codes \<Rightarrow> collaborators \<Rightarrow> int \<times> result_call list" where
  "sieve_execute c env =
     (let ret = sieve_run c env in
      if ret > 0 then (result_execute env, [Result_execute])
      else if ret = SIEVE_EXEC_FAILURE c then
        (if result_implicit_keep env = SIEVE_EXEC_OK c then (ret, [Result_implicit_keep])
         else if result_implicit_keep env = SIEVE_EXEC_TEMP_FAILURE c
           then (SIEVE_EXEC_TEMP_FAILURE c, [Result_implicit_keep])
         else (SIEVE_EXEC_KEEP_FAILED c, [Result_implicit_keep]))
      else (ret, []))"

subsection \<open>Multiscript support\<close>

text \<open>
  The fields of \<^verbatim>\<open>struct sieve_multiscript\<close> that the status functions read:
  \<open>teststream\<close> is whether the test stream is non-NULL, and \<open>result_executed\<close> is what
  \<^verbatim>\<open>sieve_result_executed\<close> answers for the shared result.
\<close>

record sieve_multiscript =
  status :: int
  keep :: bool
  teststream :: bool
  active :: bool
  discard_handled :: bool
  result_executed :: bool

definition sieve_multiscript_start_execute :: "exit_codes \<Rightarrow> sieve_multiscript" where
  "sieve_multiscript_start_execute c =
     \<lparr>status = SIEVE_EXEC_OK c, keep = True, teststream = False, active = True,
      discard_handled = False, result_executed = False\<rparr>"

definition sieve_multiscript_start_test :: "exit_codes \<Rightarrow> sieve_multiscript" where
  "sieve_multiscript_start_test c = (sieve_multiscript_start_execute c)\<lparr>teststream := True\<rparr>"

text \<open>
  What the result object answers during one \<^verbatim>\<open>sieve_multiscript_run\<close>, besides the
  statuses above: whether \<^verbatim>\<open>sieve_result_print\<close> succeeds, the value that
  \<^verbatim>\<open>sieve_result_execute\<close> or \<^verbatim>\<open>sieve_result_print\<close> stores through the keep pointer,
  and what \<^verbatim>\<open>sieve_result_executed\<close> answers once \<^verbatim>\<open>sieve_result_execute\<close>,
  \<^verbatim>\<open>sieve_result_implicit_keep\<close> or \<^verbatim>\<open>sieve_result_mark_executed\<close> has run.
\<close>

record run_collaborators = collaborators +
  result_print :: bool
  result_keep :: bool
  result_executed_after :: bool

definition sieve_multiscript_test ::
  "exit_codes \<Rightarrow> run_collaborators \<Rightarrow> sieve_multiscript \<Rightarrow> sieve_multiscript" where
  "sieve_multiscript_test c env mscript =
     (let mscript' =
        (if status mscript > 0
         then mscript\<lparr>status := (if result_print env then SIEVE_EXEC_OK c
                                   else SIEVE_EXEC_FAILURE c),
                       keep := result_keep env\<rparr>
         else mscript\<lparr>keep := True\<rparr>)
      in mscript'\<lparr>result_executed := result_executed_after env\<rparr>)"

definition sieve_multiscript_execute ::
  "exit_codes \<Rightarrow> run_collaborators \<Rightarrow> sieve_multiscript \<Rightarrow> sieve_multiscript" where
  "sieve_multiscript_execute c env mscript =
     (if status mscript > 0
      then mscript\<lparr>status := result_execute env, keep := result_keep env,
                    result_executed := result_executed_after env\<rparr>
      else if result_implicit_keep env \<le> 0
        then mscript\<lparr>status := SIEVE_EXEC_KEEP_FAILED c,
                      result_executed := result_executed_after env\<rparr>
      else mscript\<lparr>keep := True, result_executed := result_executed_after env\<rparr>)"

definition sieve_multiscript_run ::
  "exit_codes \<Rightarrow> run_collaborators \<Rightarrow> sieve_multiscript \<Rightarrow> bool \<times> sieve_multiscript" where
  "sieve_multiscript_run c env mscript0 =
     (if \<not> active mscript0 then (False, mscript0)
      else
        let mscript1 = mscript0\<lparr>status := sieve_run c (collaborators.truncate env)\<rparr>;
            mscript2 =
              (if status mscript1 \<ge> 0 then
                 let m = mscript1\<lparr>keep := False\<rparr>;
                     m' = (if teststream m then sieve_multiscript_test c env m
                           else sieve_multiscript_execute c env m)
                 in if \<not> keep m' then m'\<lparr>active := False\<rparr> else m'
               else mscript1)
        in if \<not> active mscript2 \<or> status mscript2 \<le> 0
           then (False, mscript2\<lparr>active := False\<rparr>)
           else (True, mscript2))"

definition sieve_multiscript_status :: "sieve_multiscript \<Rightarrow> int" where
  "sieve_multiscript_status mscript = status mscript"

text \<open>
  \<^verbatim>\<open>sieve_multiscript_tempfail\<close> destroys the multiscript, so the model returns the status
  and the calls made on the result; \<open>keep_ret\<close> is what \<^verbatim>\<open>sieve_result_implicit_keep\<close>
  returns if it is called.
\<close>

definition sieve_multiscript_tempfail ::
  "exit_codes \<Rightarrow> sieve_multiscript \<Rightarrow> int \<Rightarrow> int \<times> result_call list" where
  "sieve_multiscript_tempfail c mscript keep_ret =
     (let ret = status mscript in
      if active mscript then
        (if \<not> teststream mscript \<and> result_executed mscript then
           (if keep_ret = SIEVE_EXEC_OK c
            then (SIEVE_EXEC_FAILURE c, [Result_set_keep_action, Result_implicit_keep])
            else (SIEVE_EXEC_KEEP_FAILED c, [Result_set_keep_action, Result_implicit_keep]))
         else (SIEVE_EXEC_TEMP_FAILURE c, [Result_set_keep_action]))
      else (ret, [Result_set_keep_action]))"

section \<open>Commands and their validation\<close>

subsection \<open>The validator as the commands see it\<close>

datatype sieve_ast_type = SAAT_NUMBER | SAAT_STRING | SAAT_STRING_LIST | SAAT_TAG

datatype sieve_ast_argument =
  Number_arg nat | String_arg string | String_list_arg "string list" | Tag_arg string

fun sieve_ast_argument_type :: "sieve_ast_argument \<Rightarrow> sieve_ast_type" where
  "sieve_ast_argument_type (Number_arg n) = SAAT_NUMBER"
| "sieve_ast_argument_type (String_arg s) = SAAT_STRING"
| "sieve_ast_argument_type (String_list_arg ss) = SAAT_STRING_LIST"
| "sieve_ast_argument_type (Tag_arg t) = SAAT_TAG"

text \<open>The command definitions, compared by address in the source.\<close>

datatype sieve_command = Cmd_require | Tst_size | Other_command string

text \<open>The validator collects the diagnostics that the commands report.\<close>

record sieve_validator =
  errors :: "string list"

definition sieve_command_validate_error :: "sieve_validator \<Rightarrow> string \<Rightarrow> sieve_validator" where
  "sieve_command_validate_error validator msg = validator\<lparr>errors := errors validator @ [msg]\<rparr>"

text \<open>
  The functions of the validator that the two commands call are defined in files that are
  not among the sources; they are parameters of the model:
  \<^verbatim>\<open>sieve_validator_extension_load\<close> (whether it returned an extension),
  \<^verbatim>\<open>sieve_validate_positional_argument\<close>, \<^verbatim>\<open>sieve_validator_argument_activate\<close>
  (its result is not used) and \<^verbatim>\<open>sieve_ast_argument_name\<close>.
\<close>

record validator_functions =
  extension_load :: "sieve_validator \<Rightarrow> string \<Rightarrow> bool \<times> sieve_validator"
  validate_positional_argument ::
    "sieve_validator \<Rightarrow> sieve_ast_argument \<Rightarrow> string \<Rightarrow> nat \<Rightarrow>
       sieve_ast_type \<Rightarrow> bool \<times> sieve_validator"
  argument_activate :: "sieve_validator \<Rightarrow> sieve_ast_argument \<Rightarrow> sieve_validator"
  argument_name :: "sieve_ast_argument \<Rightarrow> string"

subsection \<open>The size test: context data and tags\<close>

datatype size_type = SIZE_UNASSIGNED | SIZE_UNDER | SIZE_OVER

record tst_size_context_data =
  type :: size_type

text \<open>
  A command context. The macros \<^verbatim>\<open>sieve_command_is_toplevel\<close>,
  \<^verbatim>\<open>sieve_command_is_first\<close> and \<^verbatim>\<open>sieve_command_prev_context\<close> read the syntax tree
  around the command; their values are the fields \<open>is_toplevel\<close>, \<open>is_first\<close> and
  \<open>prev_context\<close> (the command of the previous context, \<open>None\<close> for a NULL context).
  Both commands are defined with one positional argument, which the validator checks
  before it calls the validate hook, so \<open>first_positional\<close> is an argument.
  \<open>data\<close> is the context data of the size test, which \<^verbatim>\<open>tst_size_pre_validate\<close>
  allocates before any other hook of the test runs.
\<close>

record sieve_command_context =
  command :: sieve_command
  is_toplevel :: bool
  is_first :: bool
  prev_context :: "sieve_command option"
  first_positional :: sieve_ast_argument
  data :: tst_size_context_data

definition TST_SIZE_ERROR_DUP_TAG :: string where
  "TST_SIZE_ERROR_DUP_TAG =
     ''exactly one of the ':under' or ':over' tags must be specified for the size test, but more were found''"

text \<open>
  A tag validator gets the argument list from the tag on. It returns its boolean, the
  validator, the argument it leaves the cursor on (the tag is detached) and the context.
\<close>

definition tst_size_validate_over_tag ::
  "sieve_validator \<Rightarrow> sieve_ast_argument list \<Rightarrow> sieve_command_context \<Rightarrow>
     bool \<times> sieve_validator \<times> sieve_ast_argument list \<times> sieve_command_context" where
  "tst_size_validate_over_tag validator arg tst =
     (if type (data tst) \<noteq> SIZE_UNASSIGNED
      then (False, sieve_command_validate_error validator TST_SIZE_ERROR_DUP_TAG, arg, tst)
      else (True, validator, drop 1 arg, tst\<lparr>data := (data tst)\<lparr>type := SIZE_OVER\<rparr>\<rparr>))"

definition tst_size_validate_under_tag ::
  "sieve_validator \<Rightarrow> sieve_ast_argument list \<Rightarrow> sieve_command_context \<Rightarrow>
     bool \<times> sieve_validator \<times> sieve_ast_argument list \<times> sieve_command_context" where
  "tst_size_validate_under_tag validator arg tst =
     (if type (data tst) \<noteq> SIZE_UNASSIGNED
      then (False, sieve_command_validate_error validator TST_SIZE_ERROR_DUP_TAG, arg, tst)
      else (True, validator, drop 1 arg, tst\<lparr>data := (data tst)\<lparr>type := SIZE_UNDER\<rparr>\<rparr>))"

definition tst_size_pre_validate ::
  "sieve_validator \<Rightarrow> sieve_command_context \<Rightarrow> bool \<times> sieve_command_context" where
  "tst_size_pre_validate validator tst = (True, tst\<lparr>data := \<lparr>type = SIZE_UNASSIGNED\<rparr>\<rparr>)"

definition tst_size_validate ::
  "validator_functions \<Rightarrow> sieve_validator \<Rightarrow> sieve_command_context \<Rightarrow> bool \<times> sieve_validator" where
  "tst_size_validate vf validator tst =
     (let arg = first_positional tst in
      if type (data tst) = SIZE_UNASSIGNED
      then (False, sieve_command_validate_error validator
              ''the size test requires either the :under or the :over tag to be specified'')
      else
        case validate_positional_argument vf validator arg ''limit'' 1 SAAT_NUMBER of
          (False, validator') \<Rightarrow> (False, validator')
        | (True, validator') \<Rightarrow> (True, argument_activate vf validator' arg))"

definition tst_size_generate :: "sieve_command_context \<Rightarrow> sieve_opcode" where
  "tst_size_generate ctx =
     (if type (data ctx) = SIZE_OVER then Tst_size_over_opcode else Tst_size_under_opcode)"

text \<open>
  Modelled from the spec: the walk of the validator over the arguments of a test
  (sieve-validator.c) is not among the sources. Section 4.3 has the tags of a command
  looked up by name in the tag set the command registered and resolved by the validate
  callback of the tag, and the hooks of the command receive the command context. So: the
  context data is allocated, the arguments are visited in order, \<open>:over\<close> and \<open>:under\<close>
  go to the two tag validators registered by \<^verbatim>\<open>tst_size_registered\<close>, any other tag is
  an error, the first failure ends the walk, the positional arguments that are left are
  counted against the one that the definition of the test asks for, and that argument is
  the first positional argument of \<^verbatim>\<open>tst_size_validate\<close>.
\<close>

fun validate_size_tags ::
  "sieve_validator \<Rightarrow> sieve_ast_argument list \<Rightarrow> sieve_command_context \<Rightarrow>
     bool \<times> sieve_validator \<times> sieve_ast_argument list \<times> sieve_command_context" where
  "validate_size_tags validator [] tst = (True, validator, [], tst)"
| "validate_size_tags validator (Tag_arg t # rest) tst =
     (if t = ''over'' then
        (case tst_size_validate_over_tag validator (Tag_arg t # rest) tst of
           (False, r) \<Rightarrow> (False, r)
         | (True, validator', arg', tst') \<Rightarrow> validate_size_tags validator' rest tst')
      else if t = ''under'' then
        (case tst_size_validate_under_tag validator (Tag_arg t # rest) tst of
           (False, r) \<Rightarrow> (False, r)
         | (True, validator', arg', tst') \<Rightarrow> validate_size_tags validator' rest tst')
      else (False, sieve_command_validate_error validator (''unknown tagged argument :'' @ t),
            Tag_arg t # rest, tst))"
| "validate_size_tags validator (a # rest) tst =
     (case validate_size_tags validator rest tst of
        (ok, validator', args', tst') \<Rightarrow> (ok, validator', a # args', tst'))"

definition validate_size_test ::
  "validator_functions \<Rightarrow> sieve_validator \<Rightarrow> sieve_ast_argument list \<Rightarrow> sieve_command_context \<Rightarrow>
     bool \<times> sieve_validator \<times> sieve_command_context" where
  "validate_size_test vf validator args tst0 =
     (case tst_size_pre_validate validator tst0 of
        (False, tst) \<Rightarrow> (False, validator, tst)
      | (True, tst) \<Rightarrow>
          (case validate_size_tags validator args tst of
             (False, validator', args', tst') \<Rightarrow> (False, validator', tst')
           | (True, validator', args', tst') \<Rightarrow>
               (case args' of
                  [a] \<Rightarrow>
                    (let tst'' = tst'\<lparr>first_positional := a\<rparr>
                     in case tst_size_validate vf validator' tst'' of
                          (ok, validator'') \<Rightarrow> (ok, validator'', tst''))
                | _ \<Rightarrow>
                    (False, sieve_command_validate_error validator'
                       ''the size test requires 1 positional argument(s)'', tst'))))"

text \<open>The two tags of the size test, for counting them among the arguments.\<close>

fun is_size_tag :: "sieve_ast_argument \<Rightarrow> bool" where
  "is_size_tag (Tag_arg t) = (t = ''over'' \<or> t = ''under'')"
| "is_size_tag a = False"

subsection \<open>The require command (cmd-require.c)\<close>

text \<open>The loop over the items of a string list: every item is loaded, also after a failure.\<close>

fun require_strlist ::
  "validator_functions \<Rightarrow> sieve_validator \<Rightarrow> string list \<Rightarrow> bool \<Rightarrow> bool \<times> sieve_validator" where
  "require_strlist vf validator [] result = (result, validator)"
| "require_strlist vf validator (stritem # rest) result =
     (case extension_load vf validator stritem of
        (ext, validator') \<Rightarrow> require_strlist vf validator' rest (if \<not> ext then False else result))"

definition require_placement_error :: string where
  "require_placement_error =
     ''require commands can only be placed at top level at the beginning of the file''"

definition cmd_require_validate ::
  "validator_functions \<Rightarrow> sieve_validator \<Rightarrow> sieve_command_context \<Rightarrow> bool \<times> sieve_validator" where
  "cmd_require_validate vf validator cmd =
     (if \<not> is_toplevel cmd \<or>
         (\<not> is_first cmd \<and> prev_context cmd \<noteq> None \<and> prev_context cmd \<noteq> Some Cmd_require)
      then (False, sieve_command_validate_error validator require_placement_error)
      else
        case first_positional cmd of
          String_arg s \<Rightarrow>
            (case extension_load vf validator s of
               (ext, validator') \<Rightarrow> (if \<not> ext then False else True, validator'))
        | String_list_arg ss \<Rightarrow> require_strlist vf validator ss True
        | arg \<Rightarrow>
            (False, sieve_command_validate_error validator
               (''the require command accepts a single string or string list argument, but '' @
                argument_name vf arg @ '' was found'')))"

text \<open>
  The commands of one block, in order, as the three placement macros see them (the
  macros are defined in a header that is not among the sources). A command of the script
  comes with the command definition of its context, \<open>None\<close> when it has no context, and
  with its first positional argument. The first command of a block has no predecessor;
  for every other one \<^verbatim>\<open>sieve_command_prev_context\<close> is the context of the command just
  before it, which is NULL when that command has none. The result lists the contexts of
  the commands, \<open>None\<close> for a command without one.
\<close>

fun block_contexts ::
  "bool \<Rightarrow> bool \<Rightarrow> sieve_command option \<Rightarrow> (sieve_command option \<times> sieve_ast_argument) list \<Rightarrow>
     sieve_command_context option list" where
  "block_contexts toplevel first prev [] = []"
| "block_contexts toplevel first prev ((c, arg) # rest) =
     (case c of
        None \<Rightarrow> None
      | Some cmd \<Rightarrow>
          Some \<lparr>command = cmd, is_toplevel = toplevel, is_first = first, prev_context = prev,
                first_positional = arg, data = \<lparr>type = SIZE_UNASSIGNED\<rparr>\<rparr>)
     # block_contexts toplevel False c rest"

section \<open>Address matching (sieve-address-parts.c)\<close>

text \<open>
  An address as \<^verbatim>\<open>message_address_parse\<close> returns it; a NULL field is \<open>None\<close>. The parser
  belongs to the mail library, so the parsed list is a parameter (\<open>parse\<close>), as are the
  \<^verbatim>\<open>extract_from\<close> function of the address part and \<^verbatim>\<open>sieve_match_value\<close> on the match
  context (\<open>match_value\<close>).
\<close>

record message_address =
  addr_name :: "string option"
  route :: "string option"
  mailbox :: "string option"
  domain :: "string option"

datatype error = Assertion_failed | Null_dereference | Dangling_pointer

text \<open>
  The loop of \<^verbatim>\<open>sieve_address_match\<close>. It returns \<open>matched\<close> and the values handed to
  \<^verbatim>\<open>sieve_match_value\<close>, in order; \<^verbatim>\<open>i_assert\<close> panics.
\<close>

fun address_match_loop ::
  "(message_address \<Rightarrow> string option) \<Rightarrow> (string \<Rightarrow> bool) \<Rightarrow> message_address list \<Rightarrow>
     string list \<Rightarrow> error + bool \<times> string list" where
  "address_match_loop extract_from match_value [] tried = Inr (False, tried)"
| "address_match_loop extract_from match_value (addr # next) tried =
     (if domain addr \<noteq> None then
        (if mailbox addr = None then Inl Assertion_failed
         else
           case extract_from addr of
             None \<Rightarrow> address_match_loop extract_from match_value next tried
           | Some part \<Rightarrow>
               if match_value part then Inr (True, tried @ [part])
               else address_match_loop extract_from match_value next (tried @ [part]))
      else address_match_loop extract_from match_value next tried)"

definition sieve_address_match ::
  "(string \<Rightarrow> message_address list) \<Rightarrow> (message_address \<Rightarrow> string option) \<Rightarrow>
     (string \<Rightarrow> bool) \<Rightarrow> string \<Rightarrow> error + bool \<times> string list" where
  "sieve_address_match parse extract_from match_value data_str =
     address_match_loop extract_from match_value (parse data_str) []"

text \<open>
  The three core address parts. \<^verbatim>\<open>t_strconcat\<close> joins its arguments up to the first NULL
  one, and returns NULL when the first argument is NULL already.
\<close>

definition addrp_all_extract_from :: "message_address \<Rightarrow> string option" where
  "addrp_all_extract_from address =
     (case mailbox address of
        None \<Rightarrow> None
      | Some m \<Rightarrow> (case domain address of None \<Rightarrow> Some (m @ ''@'') | Some d \<Rightarrow> Some (m @ ''@'' @ d)))"

definition addrp_domain_extract_from :: "message_address \<Rightarrow> string option" where
  "addrp_domain_extract_from address = domain address"

definition addrp_localpart_extract_from :: "message_address \<Rightarrow> string option" where
  "addrp_localpart_extract_from address = mailbox address"

subsection \<open>What the claims about the two commands and the address match speak of\<close>

text \<open>
  The placement that \<^verbatim>\<open>cmd_require_validate\<close> accepts: at top level, and first, or after a
  command without a context, or after a require command.
\<close>

definition placement_ok :: "sieve_command_context \<Rightarrow> bool" where
  "placement_ok cmd \<longleftrightarrow>
     is_toplevel cmd \<and>
     (is_first cmd \<or> prev_context cmd = None \<or> prev_context cmd = Some Cmd_require)"

text \<open>
  The parts that the addresses with a domain yield, in order, and the initial stretch of
  such a list up to and including the first value that matches.
\<close>

definition offered_parts ::
  "(message_address \<Rightarrow> string option) \<Rightarrow> message_address list \<Rightarrow> string list" where
  "offered_parts extract_from addrs =
     List.map_filter (\<lambda>a. if domain a \<noteq> None then extract_from a else None) addrs"

definition tried_until_match :: "(string \<Rightarrow> bool) \<Rightarrow> string list \<Rightarrow> string list" where
  "tried_until_match match_value parts =
     takeWhile (\<lambda>p. \<not> match_value p) parts @ take 1 (dropWhile (\<lambda>p. \<not> match_value p) parts)"

section \<open>The extension registry (sieve-extensions.c)\<close>

subsection \<open>Extensions and registrations\<close>

text \<open>
  Of \<^verbatim>\<open>struct sieve_extension\<close> the registry reads the name, the pointer \<^verbatim>\<open>_id\<close> to the
  integer in which the extension finds its id (\<open>id_ptr\<close>: the address of that integer,
  \<open>None\<close> for NULL) and the \<^verbatim>\<open>load\<close> hook (\<open>None\<close> for NULL, otherwise what the hook
  returns). The integers behind the \<^verbatim>\<open>_id\<close> pointers live in \<open>id_store\<close>.
\<close>

record sieve_extension =
  name :: string
  id_ptr :: "nat option"
  load :: "bool option"

text \<open>The field \<^verbatim>\<open>id\<close> of a registration is \<open>ext_id\<close> here.\<close>

record sieve_extension_registration =
  extension :: "sieve_extension option"
  ext_id :: int
  required :: bool
  loaded :: bool

text \<open>
  The registrations are the elements of the array \<^verbatim>\<open>extensions\<close>, and the hash table
  \<^verbatim>\<open>extension_index\<close> stores pointers to these elements. Such a pointer is the
  allocation that held the array when the pointer was taken, together with the position
  of the element. \<open>array_buffer\<close> is the allocation that holds the array now.
  \<^verbatim>\<open>i_array_init\<close> creates the array for 30 elements. The array library is not among the
  sources, so the state carries what it does when an array that has used these up grows:
  \<open>array_grow st n b\<close> is the allocation that holds the array after
  \<^verbatim>\<open>array_append_space\<close> on an array of \<open>n\<close> elements in the allocation \<open>b\<close> (it is \<open>b\<close>
  when the array stays where it is). The state also holds the integers behind the
  \<^verbatim>\<open>_id\<close> pointers and the lines written by \<^verbatim>\<open>sieve_sys_error\<close> and
  \<^verbatim>\<open>sieve_sys_warning\<close>.
\<close>

type_synonym ereg_ptr = "nat \<times> nat"

record sieve_extensions_state =
  extensions :: "sieve_extension_registration list"
  array_buffer :: nat
  array_grow :: "nat \<Rightarrow> nat \<Rightarrow> nat"
  extension_index :: "string \<rightharpoonup> ereg_ptr"
  id_store :: "nat \<Rightarrow> int"
  sys_log :: "string list"

text \<open>
  \<^verbatim>\<open>sieve_extensions_init_registry\<close> creates the array and the hash table, both empty; no
  pointer leads into the array yet.
\<close>

definition sieve_extensions_init_registry :: "sieve_extensions_state \<Rightarrow> sieve_extensions_state" where
  "sieve_extensions_init_registry st = st\<lparr>extensions := [], extension_index := Map.empty\<rparr>"

text \<open>
  Following a pointer to a registration gives the element at its position as long as the
  array is still in the allocation the pointer leads into. A pointer into an allocation
  that the array has left is dangling, and using it is an error.
\<close>

definition ereg_at :: "sieve_extensions_state \<Rightarrow> ereg_ptr \<Rightarrow> error + nat" where
  "ereg_at st ereg =
     (if fst ereg = array_buffer st \<and> snd ereg < length (extensions st) then Inr (snd ereg)
      else Inl Dangling_pointer)"

text \<open>The test \<^verbatim>\<open>*name == '@'\<close> on the first character of a name.\<close>

fun starts_with_at :: "string \<Rightarrow> bool" where
  "starts_with_at [] = False"
| "starts_with_at (c # cs) = (c = CHR ''@'')"

text \<open>
  Modelled from the spec: the macro \<^verbatim>\<open>SIEVE_EXT_ENABLED\<close> is defined in a header that is not
  among the sources. The spec has the registry track which extensions are enabled. In
  the source \<^verbatim>\<open>sieve_extension_enable\<close> stores the id of the registration, a position in
  the array, through \<^verbatim>\<open>_id\<close>, and \<^verbatim>\<open>sieve_extension_disable\<close> stores -1; so an extension is
  enabled when its \<^verbatim>\<open>_id\<close> is not NULL and the integer behind it is not negative.
\<close>

definition SIEVE_EXT_ENABLED :: "sieve_extensions_state \<Rightarrow> sieve_extension \<Rightarrow> bool" where
  "SIEVE_EXT_ENABLED st ext =
     (case id_ptr ext of None \<Rightarrow> False | Some a \<Rightarrow> id_store st a \<ge> 0)"

definition sieve_extension_load ::
  "sieve_extensions_state \<Rightarrow> sieve_extension \<Rightarrow> bool \<times> sieve_extensions_state" where
  "sieve_extension_load st ext =
     (if load ext \<noteq> None \<and> load ext \<noteq> Some True
      then (False, st\<lparr>sys_log := sys_log st @
              [''failed to load '' @ CHR 0x27 # name ext @ CHR 0x27 # '' extension support.'']\<rparr>)
      else (True, st))"

text \<open>
  \<^verbatim>\<open>_sieve_extension_register\<close> in its two steps. The first registers the extension if
  its name is not registered already: the new registration is the zero-filled element
  that \<^verbatim>\<open>array_append_space\<close> adds, with the old count of the array as its id, and the
  pointer to it goes into the hash table. The array stays in its allocation while it
  holds fewer than the 30 elements it was created for. The second step reads the
  registration through the pointer that the first has found or made, and enables the
  extension if the registration has none yet. The function returns the registration
  (\<open>None\<close> for NULL) and the new state.
\<close>

definition register_if_new ::
  "sieve_extensions_state \<Rightarrow> sieve_extension \<Rightarrow> ereg_ptr \<times> sieve_extensions_state" where
  "register_if_new st ext =
     (case extension_index st (name ext) of
        Some ereg \<Rightarrow> (ereg, st)
      | None \<Rightarrow>
          (let count = length (extensions st);
               buffer = (if count < 30 then array_buffer st
                         else array_grow st count (array_buffer st));
               ereg = (buffer, count)
           in (ereg,
               st\<lparr>extensions := extensions st @
                      [\<lparr>extension = None, ext_id = int count, required = False, loaded = False\<rparr>],
                   array_buffer := buffer,
                   extension_index := (extension_index st)(name ext \<mapsto> ereg)\<rparr>)))"

definition enable_registered ::
  "sieve_extensions_state \<Rightarrow> nat \<Rightarrow> sieve_extension \<Rightarrow> bool \<Rightarrow>
     nat option \<times> sieve_extensions_state" where
  "enable_registered st ereg ext ld =
     (if extension (extensions st ! ereg) = None then
        (case id_ptr ext of
           Some a \<Rightarrow>
             if ld then
               (let st1 = st\<lparr>id_store := (id_store st)(a := ext_id (extensions st ! ereg))\<rparr>;
                    (ok, st2) = (if \<not> loaded (extensions st1 ! ereg)
                                 then sieve_extension_load st1 ext else (True, st1))
                in if \<not> ok then (None, st2)
                   else (Some ereg,
                         st2\<lparr>extensions := (extensions st2)
                               [ereg := (extensions st2 ! ereg)
                                  \<lparr>loaded := True, extension := Some ext\<rparr>]\<rparr>))
             else (Some ereg,
                   st\<lparr>extensions := (extensions st)
                        [ereg := (extensions st ! ereg)\<lparr>extension := Some ext\<rparr>]\<rparr>)
         | None \<Rightarrow>
             (Some ereg,
              st\<lparr>extensions := (extensions st)
                   [ereg := (extensions st ! ereg)\<lparr>extension := Some ext\<rparr>]\<rparr>))
      else (Some ereg, st))"

definition sieve_extension_register_impl ::
  "sieve_extensions_state \<Rightarrow> sieve_extension \<Rightarrow> bool \<Rightarrow>
     error + nat option \<times> sieve_extensions_state" where
  "sieve_extension_register_impl st ext ld =
     (case register_if_new st ext of
        (ereg, st') \<Rightarrow>
          (case ereg_at st' ereg of
             Inl e \<Rightarrow> Inl e
           | Inr k \<Rightarrow> Inr (enable_registered st' k ext ld)))"

definition sieve_extension_register ::
  "sieve_extensions_state \<Rightarrow> sieve_extension \<Rightarrow> bool \<Rightarrow> error + int \<times> sieve_extensions_state" where
  "sieve_extension_register st ext ld =
     (case sieve_extension_register_impl st ext ld of
        Inl e \<Rightarrow> Inl e
      | Inr (None, st') \<Rightarrow> Inr (- 1, st')
      | Inr (Some ereg, st') \<Rightarrow> Inr (ext_id (extensions st' ! ereg), st'))"

definition sieve_extension_require ::
  "sieve_extensions_state \<Rightarrow> sieve_extension \<Rightarrow> error + int \<times> sieve_extensions_state" where
  "sieve_extension_require st ext =
     (case sieve_extension_register_impl st ext True of
        Inl e \<Rightarrow> Inl e
      | Inr (None, st') \<Rightarrow> Inr (- 1, st')
      | Inr (Some ereg, st') \<Rightarrow>
          Inr (ext_id (extensions st' ! ereg),
               st'\<lparr>extensions := (extensions st')
                     [ereg := (extensions st' ! ereg)\<lparr>required := True\<rparr>]\<rparr>))"

definition sieve_extensions_get_count :: "sieve_extensions_state \<Rightarrow> int" where
  "sieve_extensions_get_count st = int (length (extensions st))"

subsection \<open>The registry at start-up\<close>

text \<open>
  The extensions that the file declares \<^verbatim>\<open>extern\<close> are defined elsewhere; \<open>ext\<close> maps
  the name of such a variable to the extension. The two dummy extensions are defined in
  the file.
\<close>

definition comparator_i_octet_extension :: sieve_extension where
  "comparator_i_octet_extension = \<lparr>name = ''comparator-i;octet'', id_ptr = None, load = None\<rparr>"

definition comparator_i_ascii_casemap_extension :: sieve_extension where
  "comparator_i_ascii_casemap_extension =
     \<lparr>name = ''comparator-i;ascii-casemap'', id_ptr = None, load = None\<rparr>"

definition sieve_preloaded_extensions :: "(string \<Rightarrow> sieve_extension) \<Rightarrow> sieve_extension list" where
  "sieve_preloaded_extensions ext =
     [ext ''comparator_extension'', ext ''match_type_extension'', ext ''address_part_extension'']"

definition sieve_core_extensions :: "(string \<Rightarrow> sieve_extension) \<Rightarrow> sieve_extension list" where
  "sieve_core_extensions ext =
     [ext ''comparator_extension'', ext ''match_type_extension'', ext ''address_part_extension'',
      comparator_i_octet_extension, comparator_i_ascii_casemap_extension,
      ext ''fileinto_extension'', ext ''reject_extension'', ext ''envelope_extension'',
      ext ''encoded_character_extension'',
      ext ''vacation_extension'', ext ''subaddress_extension'',
      ext ''comparator_i_ascii_numeric_extension'',
      ext ''relational_extension'', ext ''regex_extension'', ext ''imap4flags_extension'',
      ext ''copy_extension'', ext ''include_extension'', ext ''body_extension'',
      ext ''variables_extension'', ext ''enotify_extension'']"

definition sieve_depricated_extensions :: "(string \<Rightarrow> sieve_extension) \<Rightarrow> sieve_extension list" where
  "sieve_depricated_extensions ext = [ext ''imapflags_extension'']"

text \<open>A loop that registers the extensions of a table in order, ignoring the ids.\<close>

fun register_each ::
  "sieve_extensions_state \<Rightarrow> sieve_extension list \<Rightarrow> error + sieve_extensions_state" where
  "register_each st [] = Inr st"
| "register_each st (e # es) =
     (case sieve_extension_register st e True of
        Inl err \<Rightarrow> Inl err
      | Inr (i, st') \<Rightarrow> register_each st' es)"

definition sieve_extensions_init ::
  "(string \<Rightarrow> sieve_extension) \<Rightarrow> sieve_extensions_state \<Rightarrow>
     error + bool \<times> sieve_extensions_state" where
  "sieve_extensions_init ext st =
     (case register_each (sieve_extensions_init_registry st) (sieve_core_extensions ext) of
        Inl err \<Rightarrow> Inl err
      | Inr st1 \<Rightarrow>
          (case register_each st1 (sieve_depricated_extensions ext) of
             Inl err \<Rightarrow> Inl err
           | Inr st2 \<Rightarrow> Inr (True, st2)))"

subsection \<open>Looking extensions up and listing them\<close>

text \<open>Reading a field of \<^verbatim>\<open>ereg->extension\<close> when that pointer is NULL is an error.\<close>

definition sieve_extension_get_by_name ::
  "sieve_extensions_state \<Rightarrow> string \<Rightarrow> error + sieve_extension option" where
  "sieve_extension_get_by_name st nm =
     (if starts_with_at nm then Inr None
      else
        case extension_index st nm of
          None \<Rightarrow> Inr None
        | Some ereg \<Rightarrow>
            (case ereg_at st ereg of
               Inl e \<Rightarrow> Inl e
             | Inr k \<Rightarrow>
                 (case extension (extensions st ! k) of
                    None \<Rightarrow> Inl Null_dereference
                  | Some ext \<Rightarrow> if \<not> SIEVE_EXT_ENABLED st ext then Inr None else Inr (Some ext))))"

definition list_extension ::
  "sieve_extensions_state \<Rightarrow> sieve_extension_registration \<Rightarrow> error + bool" where
  "list_extension st ereg =
     (case extension ereg of
        None \<Rightarrow> Inl Null_dereference
      | Some ext \<Rightarrow> Inr (SIEVE_EXT_ENABLED st ext \<and> \<not> starts_with_at (name ext)))"

text \<open>
  The two loops of \<^verbatim>\<open>sieve_extensions_get_string\<close>: the search for the first extension
  to list, which returns the registrations from that one on, and the loop that appends
  the others, each after a space.
\<close>

fun first_listed ::
  "sieve_extensions_state \<Rightarrow> sieve_extension_registration list \<Rightarrow>
     error + sieve_extension_registration list" where
  "first_listed st [] = Inr []"
| "first_listed st (ereg # eregs) =
     (case list_extension st ereg of
        Inl e \<Rightarrow> Inl e
      | Inr True \<Rightarrow> Inr (ereg # eregs)
      | Inr False \<Rightarrow> first_listed st eregs)"

fun add_others ::
  "sieve_extensions_state \<Rightarrow> sieve_extension_registration list \<Rightarrow> string \<Rightarrow> error + string" where
  "add_others st [] extstr = Inr extstr"
| "add_others st (ereg # eregs) extstr =
     (case list_extension st ereg of
        Inl e \<Rightarrow> Inl e
      | Inr True \<Rightarrow>
          (case extension ereg of
             None \<Rightarrow> Inl Null_dereference
           | Some ext \<Rightarrow> add_others st eregs (extstr @ '' '' @ name ext))
      | Inr False \<Rightarrow> add_others st eregs extstr)"

definition sieve_extensions_get_string :: "sieve_extensions_state \<Rightarrow> error + string" where
  "sieve_extensions_get_string st =
     (case first_listed st (extensions st) of
        Inl e \<Rightarrow> Inl e
      | Inr [] \<Rightarrow> Inr []
      | Inr (ereg # eregs) \<Rightarrow>
          (case extension ereg of
             None \<Rightarrow> Inl Null_dereference
           | Some ext \<Rightarrow> add_others st eregs (name ext)))"

subsection \<open>Enabling and disabling\<close>

definition sieve_extension_enable ::
  "sieve_extensions_state \<Rightarrow> nat \<Rightarrow> error + sieve_extensions_state" where
  "sieve_extension_enable st ereg =
     (case extension (extensions st ! ereg) of
        None \<Rightarrow> Inl Null_dereference
      | Some ext \<Rightarrow>
          (let st1 =
             (case id_ptr ext of
                None \<Rightarrow> st
              | Some a \<Rightarrow>
                  (let st' = st\<lparr>id_store := (id_store st)(a := ext_id (extensions st ! ereg))\<rparr>
                   in if \<not> loaded (extensions st' ! ereg)
                      then snd (sieve_extension_load st' ext) else st'))
           in Inr (st1\<lparr>extensions := (extensions st1)
                        [ereg := (extensions st1 ! ereg)\<lparr>loaded := True\<rparr>]\<rparr>)))"

definition sieve_extension_disable ::
  "sieve_extensions_state \<Rightarrow> nat \<Rightarrow> error + sieve_extensions_state" where
  "sieve_extension_disable st ereg =
     (case extension (extensions st ! ereg) of
        None \<Rightarrow> Inl Null_dereference
      | Some ext \<Rightarrow>
          (case id_ptr ext of
             None \<Rightarrow> Inr st
           | Some a \<Rightarrow> Inr (st\<lparr>id_store := (id_store st)(a := - 1)\<rparr>)))"

text \<open>
  One round of the \<^verbatim>\<open>do\<close> loop of \<^verbatim>\<open>sieve_extensions_set_string\<close>. \<open>bp\<close> is the text
  from the pointer \<^verbatim>\<open>bp\<close> on. \<^verbatim>\<open>strchr\<close> finds the first space: \<open>ep_found\<close> says whether
  there is one, the name is the text before it (all of \<open>bp\<close> if there is none), and \<open>bp\<close>
  moves behind the space.
\<close>

definition ep_found :: "string \<Rightarrow> bool" where
  "ep_found bp \<longleftrightarrow> CHR '' '' \<in> set bp"

definition token_name :: "string \<Rightarrow> string" where
  "token_name bp = takeWhile (\<lambda>c. c \<noteq> CHR '' '') bp"

definition next_bp :: "string \<Rightarrow> string" where
  "next_bp bp = (if ep_found bp then drop 1 (dropWhile (\<lambda>c. c \<noteq> CHR '' '') bp) else bp)"

text \<open>
  The body of the round: a name that is not empty is looked up (a name that starts with
  \<open>@\<close> is not) and the registration found is appended to \<^verbatim>\<open>enabled_extensions\<close>; an
  unknown name gives a warning.
\<close>

definition set_string_name ::
  "(string \<rightharpoonup> ereg_ptr) \<Rightarrow> string \<Rightarrow> ereg_ptr list \<times> string list \<Rightarrow>
     ereg_ptr list \<times> string list" where
  "set_string_name index nm acc =
     (case acc of (enabled_extensions, log) \<Rightarrow>
        if nm \<noteq> [] then
          (case (if starts_with_at nm then None else index nm) of
             None \<Rightarrow>
               (enabled_extensions,
                log @ [''ignored unknown extension '' @ CHR 0x27 # nm @
                       CHR 0x27 # '' while configuring available extensions''])
           | Some ereg \<Rightarrow> (enabled_extensions @ [ereg], log))
        else (enabled_extensions, log))"

text \<open>
  The loop goes on while \<^verbatim>\<open>*bp == '\0' || ep != NULL\<close>. It need not end, so its result is
  an option: \<open>None\<close> when it runs forever.
\<close>

partial_function (option) set_string_loop ::
  "(string \<rightharpoonup> ereg_ptr) \<Rightarrow> string \<Rightarrow> ereg_ptr list \<times> string list \<Rightarrow>
     (ereg_ptr list \<times> string list) option" where
  "set_string_loop index bp acc =
     (if next_bp bp = [] \<or> ep_found bp
      then set_string_loop index (next_bp bp) (set_string_name index (token_name bp) acc)
      else Some (set_string_name index (token_name bp) acc))"

text \<open>
  The loop over the registrations that sets the new status; the inner loop looks for the
  registration among the enabled ones, comparing the pointers found in the hash table
  with the address \<^verbatim>\<open>&eregs[i]\<close> of the element in the array as it is now.
\<close>

fun set_extension_status ::
  "ereg_ptr list \<Rightarrow> nat list \<Rightarrow> sieve_extensions_state \<Rightarrow> error + sieve_extensions_state" where
  "set_extension_status ena_eregs [] st = Inr st"
| "set_extension_status ena_eregs (i # is) st =
     (let disabled = ((array_buffer st, i) \<notin> set ena_eregs) in
      case extension (extensions st ! i) of
        None \<Rightarrow> Inl Null_dereference
      | Some ext \<Rightarrow>
          if id_ptr ext \<noteq> None \<and> \<not> starts_with_at (name ext) then
            (case (if disabled \<and> \<not> required (extensions st ! i)
                   then sieve_extension_disable st i
                   else sieve_extension_enable st i) of
               Inl e \<Rightarrow> Inl e
             | Inr st' \<Rightarrow> set_extension_status ena_eregs is st')
          else set_extension_status ena_eregs is st)"

fun enable_all :: "nat list \<Rightarrow> sieve_extensions_state \<Rightarrow> error + sieve_extensions_state" where
  "enable_all [] st = Inr st"
| "enable_all (i # is) st =
     (case sieve_extension_enable st i of
        Inl e \<Rightarrow> Inl e
      | Inr st' \<Rightarrow> enable_all is st')"

text \<open>
  \<^verbatim>\<open>sieve_extensions_set_string\<close>; \<open>None\<close> as the string is the NULL pointer. The outer
  option is \<open>None\<close> when the call does not return.
\<close>

definition sieve_extensions_set_string ::
  "sieve_extensions_state \<Rightarrow> string option \<Rightarrow> (error + sieve_extensions_state) option" where
  "sieve_extensions_set_string st ext_string =
     (case ext_string of
        None \<Rightarrow> Some (enable_all [0..<length (extensions st)] st)
      | Some s \<Rightarrow>
          (case set_string_loop (extension_index st) s ([], sys_log st) of
             None \<Rightarrow> None
           | Some (ena_eregs, log) \<Rightarrow>
               Some (set_extension_status ena_eregs [0..<length (extensions st)]
                       (st\<lparr>sys_log := log\<rparr>))))"

subsection \<open>What the claims about the registry speak of\<close>

text \<open>
  The names of an extension list: the pieces between single spaces, empty ones included.
  \<open>fold_names\<close> runs the body of the loop of \<^verbatim>\<open>sieve_extensions_set_string\<close> over a
  list of names.
\<close>

fun split_at_spaces :: "string \<Rightarrow> string list" where
  "split_at_spaces [] = [[]]"
| "split_at_spaces (c # cs) =
     (if c = CHR '' '' then [] # split_at_spaces cs
      else (case split_at_spaces cs of t # ts \<Rightarrow> (c # t) # ts | [] \<Rightarrow> [[c]]))"

definition fold_names ::
  "(string \<rightharpoonup> ereg_ptr) \<Rightarrow> string list \<Rightarrow> ereg_ptr list \<times> string list \<Rightarrow>
     ereg_ptr list \<times> string list" where
  "fold_names index names acc = foldl (\<lambda>acc nm. set_string_name index nm acc) acc names"

text \<open>
  The registrations are numbered by their position; every pointer in the index leads
  into the allocation that holds the array now, to a registration of an extension of
  that name (the array has not moved since the pointer was stored); and every
  registration is indexed under exactly one name. A registration leaves the array where
  it is when the name is registered already or the array holds fewer than the 30
  elements it was created for.
\<close>

definition ids_dense :: "sieve_extensions_state \<Rightarrow> bool" where
  "ids_dense st \<longleftrightarrow> map ext_id (extensions st) = map int [0..<length (extensions st)]"

definition index_sound :: "sieve_extensions_state \<Rightarrow> bool" where
  "index_sound st \<longleftrightarrow>
     (\<forall>nm ereg. extension_index st nm = Some ereg \<longrightarrow>
        fst ereg = array_buffer st \<and> snd ereg < length (extensions st) \<and>
        (\<forall>e. extension (extensions st ! snd ereg) = Some e \<longrightarrow> name e = nm))"

definition index_onto :: "sieve_extensions_state \<Rightarrow> bool" where
  "index_onto st \<longleftrightarrow>
     (\<forall>k < length (extensions st). \<exists>nm. extension_index st nm = Some (array_buffer st, k)) \<and>
     (\<forall>nm nm' ereg. extension_index st nm = Some ereg \<and> extension_index st nm' = Some ereg \<longrightarrow>
        nm = nm')"

definition registry_wf :: "sieve_extensions_state \<Rightarrow> bool" where
  "registry_wf st \<longleftrightarrow> ids_dense st \<and> index_sound st \<and> index_onto st"

definition stays_in_place :: "sieve_extensions_state \<Rightarrow> sieve_extension \<Rightarrow> bool" where
  "stays_in_place st ext \<longleftrightarrow>
     extension_index st (name ext) \<noteq> None \<or> length (extensions st) < 30"

text \<open>
  The load hook of an extension fails during a registration when the registration has no
  extension yet, the extension has an \<^verbatim>\<open>_id\<close>, loading is asked for, the registration is
  not loaded yet and the hook returns false. \<open>load_pending\<close> is the part of this that
  depends on the registration, read in the state before the call: the name is not
  registered yet, or its registration has no extension and is not loaded.
\<close>

definition load_fails :: "sieve_extensions_state \<Rightarrow> nat \<Rightarrow> sieve_extension \<Rightarrow> bool \<Rightarrow> bool" where
  "load_fails st ereg ext ld \<longleftrightarrow>
     extension (extensions st ! ereg) = None \<and> id_ptr ext \<noteq> None \<and> ld \<and>
     \<not> loaded (extensions st ! ereg) \<and> load ext = Some False"

definition load_pending :: "sieve_extensions_state \<Rightarrow> sieve_extension \<Rightarrow> bool" where
  "load_pending st ext \<longleftrightarrow>
     (case extension_index st (name ext) of
        None \<Rightarrow> True
      | Some ereg \<Rightarrow>
          extension (extensions st ! snd ereg) = None \<and> \<not> loaded (extensions st ! snd ereg))"

text \<open>
  The capability list in the words of the spec: the names of the registrations whose
  extension is enabled and not hidden, in the order of the array, joined by single
  spaces.
\<close>

definition reg_listed :: "sieve_extensions_state \<Rightarrow> sieve_extension_registration \<Rightarrow> bool" where
  "reg_listed st ereg =
     (case extension ereg of
        None \<Rightarrow> False
      | Some ext \<Rightarrow> SIEVE_EXT_ENABLED st ext \<and> \<not> starts_with_at (name ext))"

definition reg_name :: "sieve_extension_registration \<Rightarrow> string" where
  "reg_name ereg = (case extension ereg of None \<Rightarrow> [] | Some ext \<Rightarrow> name ext)"

definition capability_names :: "sieve_extensions_state \<Rightarrow> string list" where
  "capability_names st = map reg_name (filter (reg_listed st) (extensions st))"

fun join_spaces :: "string list \<Rightarrow> string" where
  "join_spaces [] = []"
| "join_spaces [x] = x"
| "join_spaces (x # y # ys) = x @ '' '' @ join_spaces (y # ys)"

text \<open>
  The integer behind the \<^verbatim>\<open>_id\<close> of the extension of a registration. No two registrations
  share one (each extension has an id variable of its own), and every registration has
  an extension (no load has failed).
\<close>

definition reg_cell :: "sieve_extension_registration \<Rightarrow> nat option" where
  "reg_cell ereg = (case extension ereg of None \<Rightarrow> None | Some ext \<Rightarrow> id_ptr ext)"

definition cells_distinct :: "sieve_extensions_state \<Rightarrow> bool" where
  "cells_distinct st \<longleftrightarrow> distinct (List.map_filter reg_cell (extensions st))"

definition all_present :: "sieve_extensions_state \<Rightarrow> bool" where
  "all_present st \<longleftrightarrow> (\<forall>r\<in>set (extensions st). extension r \<noteq> None)"

text \<open>
  What \<^verbatim>\<open>sieve_extensions_set_string\<close> leaves alone, the value that its last loop stores
  for a registration, and the names of an extension list that are not empty.
\<close>

definition regs_kept :: "sieve_extensions_state \<Rightarrow> sieve_extensions_state \<Rightarrow> bool" where
  "regs_kept st st' \<longleftrightarrow>
     map extension (extensions st') = map extension (extensions st) \<and>
     map ext_id (extensions st') = map ext_id (extensions st) \<and>
     map required (extensions st') = map required (extensions st) \<and>
     extension_index st' = extension_index st \<and>
     array_buffer st' = array_buffer st"

definition new_status ::
  "ereg_ptr list \<Rightarrow> nat \<Rightarrow> sieve_extension_registration \<Rightarrow> nat \<Rightarrow> int" where
  "new_status ena_eregs buffer ereg k =
     (if (buffer, k) \<notin> set ena_eregs \<and> \<not> required ereg then - 1 else ext_id ereg)"

definition listed_names :: "string \<Rightarrow> string list" where
  "listed_names s = filter (\<lambda>nm. nm \<noteq> []) (split_at_spaces s)"

text \<open>The line that \<^verbatim>\<open>sieve_sys_warning\<close> writes for a name of the list that is not known.\<close>

definition unknown_extension_warning :: "string \<Rightarrow> string" where
  "unknown_extension_warning nm =
     ''ignored unknown extension '' @ CHR 0x27 # nm @
     CHR 0x27 # '' while configuring available extensions''"

text \<open>
  One round of the last loop of \<^verbatim>\<open>sieve_extensions_set_string\<close>, a loop that runs a
  step over a list of registrations until an error, and what it means that a step stores
  the value \<open>v\<close> behind the \<^verbatim>\<open>_id\<close> of the extension it visits and nothing else.
\<close>

definition status_step ::
  "ereg_ptr list \<Rightarrow> sieve_extensions_state \<Rightarrow> nat \<Rightarrow> error + sieve_extensions_state" where
  "status_step ena_eregs st i =
     (case extension (extensions st ! i) of
        None \<Rightarrow> Inl Null_dereference
      | Some ext \<Rightarrow>
          if id_ptr ext \<noteq> None \<and> \<not> starts_with_at (name ext) then
            (if (array_buffer st, i) \<notin> set ena_eregs \<and> \<not> required (extensions st ! i)
             then sieve_extension_disable st i else sieve_extension_enable st i)
          else Inr st)"

fun run_steps ::
  "(sieve_extensions_state \<Rightarrow> nat \<Rightarrow> error + sieve_extensions_state) \<Rightarrow> nat list \<Rightarrow>
     sieve_extensions_state \<Rightarrow> error + sieve_extensions_state" where
  "run_steps step [] st = Inr st"
| "run_steps step (i # is) st =
     (case step st i of Inl e \<Rightarrow> Inl e | Inr st' \<Rightarrow> run_steps step is st')"

definition writes ::
  "(sieve_extensions_state \<Rightarrow> nat \<Rightarrow> error + sieve_extensions_state) \<Rightarrow>
     (nat \<Rightarrow> sieve_extension_registration \<Rightarrow> nat \<Rightarrow> sieve_extension \<Rightarrow> int option) \<Rightarrow> bool" where
  "writes step v \<longleftrightarrow>
     (\<forall>st i e. extension (extensions st ! i) = Some e \<longrightarrow>
        (\<exists>st1. step st i = Inr st1 \<and> regs_kept st st1 \<and>
           set (sys_log st) \<subseteq> set (sys_log st1) \<and>
           id_store st1 =
             (case id_ptr e of
                None \<Rightarrow> id_store st
              | Some a \<Rightarrow>
                  (case v (array_buffer st) (extensions st ! i) i e of
                     None \<Rightarrow> id_store st
                   | Some x \<Rightarrow> (id_store st)(a := x))))) \<and>
     (\<forall>b st st1 k e. regs_kept st st1 \<longrightarrow> k < length (extensions st) \<longrightarrow>
        v b (extensions st1 ! k) k e = v b (extensions st ! k) k e)"

text \<open>What a call returns when it does not fail.\<close>

definition returned :: "error + 'a \<times> sieve_extensions_state \<Rightarrow> 'a option" where
  "returned r = (case r of Inl e \<Rightarrow> None | Inr (x, st) \<Rightarrow> Some x)"

section \<open>Concrete inputs\<close>

text \<open>
  One assignment of the exit codes that satisfies \<open>exit_codes_wf\<close>, a runtime environment
  with a readable operand and a message of 2048 bytes, validator functions that accept,
  and a context for a size test.
\<close>

definition example_codes :: exit_codes where
  "example_codes =
     \<lparr>SIEVE_EXEC_OK = 1, SIEVE_EXEC_FAILURE = 0, SIEVE_EXEC_TEMP_FAILURE = - 1,
      SIEVE_EXEC_BIN_CORRUPT = - 2, SIEVE_EXEC_KEEP_FAILED = - 3\<rparr>"

definition example_renv :: "64 word \<Rightarrow> (64 word) sieve_runtime_env" where
  "example_renv limit =
     \<lparr>opr_number_read = (\<lambda>address. Some (address + 2, limit)),
      physical_size = Some 2048, test_result = False, printed = []\<rparr>"

definition script_ok :: run_collaborators where
  "script_ok =
     \<lparr>interpreter_created = True, interpreter_run = 1, result_execute = 1,
      result_implicit_keep = 1, result_print = True, result_keep = True,
      result_executed_after = True\<rparr>"

definition script_failed :: collaborators where
  "script_failed =
     \<lparr>interpreter_created = True, interpreter_run = 0, result_execute = 1,
      result_implicit_keep = 1\<rparr>"

definition vf_accept :: validator_functions where
  "vf_accept =
     \<lparr>extension_load = (\<lambda>v s. (True, v)),
      validate_positional_argument = (\<lambda>v a n i t. (sieve_ast_argument_type a = t, v)),
      argument_activate = (\<lambda>v a. v),
      argument_name = (\<lambda>a. ''an argument'')\<rparr>"

definition size_tst :: "size_type \<Rightarrow> sieve_command_context" where
  "size_tst t =
     \<lparr>command = Tst_size, is_toplevel = False, is_first = True, prev_context = None,
      first_positional = Number_arg 0, data = \<lparr>type = t\<rparr>\<rparr>"

text \<open>
  A script with a command before its two require commands, a script in which a command
  without a context stands between a command and a require, and a parsed address list:
  an empty group, which has no domain, and three mailboxes.
\<close>

definition late_require_script :: "(sieve_command option \<times> sieve_ast_argument) list" where
  "late_require_script =
     [(Some (Other_command ''keep''), String_list_arg []),
      (Some Cmd_require, String_arg ''fileinto''),
      (Some Cmd_require, String_list_arg [''reject'', ''envelope''])]"

definition no_context_script :: "(sieve_command option \<times> sieve_ast_argument) list" where
  "no_context_script =
     [(Some (Other_command ''keep''), String_list_arg []),
      (None, String_list_arg []),
      (Some Cmd_require, String_arg ''fileinto'')]"

definition example_addresses :: "message_address list" where
  "example_addresses =
     [\<lparr>addr_name = None, route = None, mailbox = Some ''friends'', domain = None\<rparr>,
      \<lparr>addr_name = None, route = None, mailbox = Some ''bob'', domain = Some ''example.org''\<rparr>,
      \<lparr>addr_name = Some ''Alice'', route = None, mailbox = Some ''alice'',
       domain = Some ''example.org''\<rparr>,
      \<lparr>addr_name = None, route = None, mailbox = Some ''carol'', domain = Some ''example.org''\<rparr>]"

text \<open>
  An empty registry in which every id integer holds -1 and whose array moves to a new
  allocation whenever it has to grow, the registry that a call leaves (the one before
  the call when the call fails), and three extensions: one without a load hook, one
  whose load hook fails and a hidden one.
\<close>

definition empty_registry :: sieve_extensions_state where
  "empty_registry =
     \<lparr>extensions = [], array_buffer = 0, array_grow = (\<lambda>n b. Suc b),
      extension_index = Map.empty, id_store = (\<lambda>a. - 1), sys_log = []\<rparr>"

definition registered ::
  "sieve_extensions_state \<Rightarrow> sieve_extension \<Rightarrow> bool \<Rightarrow> sieve_extensions_state" where
  "registered st ext ld =
     (case sieve_extension_register st ext ld of Inl e \<Rightarrow> st | Inr (i, st') \<Rightarrow> st')"

definition required_in :: "sieve_extensions_state \<Rightarrow> sieve_extension \<Rightarrow> sieve_extensions_state" where
  "required_in st ext =
     (case sieve_extension_require st ext of Inl e \<Rightarrow> st | Inr (i, st') \<Rightarrow> st')"

definition initialised ::
  "(string \<Rightarrow> sieve_extension) \<Rightarrow> sieve_extensions_state \<Rightarrow> sieve_extensions_state" where
  "initialised ext st =
     (case sieve_extensions_init ext st of Inl e \<Rightarrow> st | Inr (ok, st') \<Rightarrow> st')"

definition fileinto_ext :: sieve_extension where
  "fileinto_ext = \<lparr>name = ''fileinto'', id_ptr = Some 0, load = None\<rparr>"

definition regex_ext :: sieve_extension where
  "regex_ext = \<lparr>name = ''regex'', id_ptr = Some 1, load = Some False\<rparr>"

definition hidden_ext :: sieve_extension where
  "hidden_ext = \<lparr>name = ''@comparators'', id_ptr = Some 2, load = Some True\<rparr>"

text \<open>External extensions for the tables: the three preloaded ones by their names.\<close>

definition example_env :: "string \<Rightarrow> sieve_extension" where
  "example_env v =
     \<lparr>name = (if v = ''comparator_extension'' then ''@comparators''
              else if v = ''match_type_extension'' then ''@match-types''
              else if v = ''address_part_extension'' then ''@address-parts''
              else v),
      id_ptr = None, load = None\<rparr>"

text \<open>
  A registry with four registrations: fileinto, a hidden extension, envelope (required)
  and vacation (registered without loading, so not enabled); the state after a call of
  \<^verbatim>\<open>sieve_extensions_set_string\<close> that returns (the state before it otherwise), and
  whether an extension is enabled after such a call.
\<close>

definition envelope_ext :: sieve_extension where
  "envelope_ext = \<lparr>name = ''envelope'', id_ptr = Some 4, load = Some True\<rparr>"

definition vacation_ext :: sieve_extension where
  "vacation_ext = \<lparr>name = ''vacation'', id_ptr = Some 3, load = None\<rparr>"

definition example_registry :: sieve_extensions_state where
  "example_registry =
     registered
       (required_in
          (registered (registered empty_registry fileinto_ext True) hidden_ext True)
          envelope_ext)
       vacation_ext False"

definition state_after ::
  "sieve_extensions_state \<Rightarrow> string option \<Rightarrow> sieve_extensions_state" where
  "state_after st ext_string =
     (case sieve_extensions_set_string st ext_string of
        Some (Inr st') \<Rightarrow> st'
      | Some (Inl e) \<Rightarrow> st
      | None \<Rightarrow> st)"

definition enabled_after ::
  "sieve_extensions_state \<Rightarrow> string option \<Rightarrow> sieve_extension \<Rightarrow> bool option" where
  "enabled_after st ext_string ext =
     (case sieve_extensions_set_string st ext_string of
        Some (Inr st') \<Rightarrow> Some (SIEVE_EXT_ENABLED st' ext)
      | Some (Inl e) \<Rightarrow> None
      | None \<Rightarrow> None)"

definition after_plus :: sieve_extensions_state where
  "after_plus = state_after example_registry (Some ''+fileinto'')"

definition after_minus :: sieve_extensions_state where
  "after_minus = state_after example_registry (Some ''fileinto -fileinto'')"

text \<open>
  The registry after the registration of fileinto, and the one after the registration of
  the extension whose load hook fails, in the empty registry and after fileinto.
\<close>

definition fileinto_registry :: sieve_extensions_state where
  "fileinto_registry = registered empty_registry fileinto_ext True"

definition regex_registry :: sieve_extensions_state where
  "regex_registry = registered empty_registry regex_ext True"

definition failed_load_registry :: sieve_extensions_state where
  "failed_load_registry = registered fileinto_registry regex_ext True"

text \<open>
  Extensions in any number, each with a name and an id variable of its own; the registry
  after \<^verbatim>\<open>sieve_extensions_init\<close> in the example environment, which holds 21
  registrations; and the registry after the registration of ten of these extensions in
  it, which holds one more than the array was created for.
\<close>

definition plugin_ext :: "nat \<Rightarrow> sieve_extension" where
  "plugin_ext i =
     \<lparr>name = ''plugin-'' @ replicate (Suc i) (CHR ''i''), id_ptr = Some i, load = None\<rparr>"

definition core_registry :: sieve_extensions_state where
  "core_registry = initialised example_env empty_registry"

definition grown_registry :: sieve_extensions_state where
  "grown_registry =
     (case register_each core_registry (map plugin_ext [0..<10]) of
        Inl e \<Rightarrow> core_registry
      | Inr st \<Rightarrow> st)"

text \<open>
  The registry after the registration of the first \<open>n\<close> of these extensions in that
  registry: the array has moved once for every registration beyond the 30th.
\<close>

definition plugins_registered :: "nat \<Rightarrow> sieve_extensions_state \<Rightarrow> bool" where
  "plugins_registered n st \<longleftrightarrow>
     extensions st =
       extensions core_registry @
       map (\<lambda>i. \<lparr>extension = Some (plugin_ext i), ext_id = int (21 + i), required = False,
                  loaded = True\<rparr>)
         [0..<n] \<and>
     array_buffer st = (if 21 + n \<le> 30 then 0 else 21 + n - 30) \<and>
     array_grow st = (\<lambda>n b. Suc b) \<and>
     (\<forall>i. extension_index st (name (plugin_ext i)) =
        (if i < n then Some (if 21 + i < 30 then 0 else 21 + i - 29, 21 + i) else None)) \<and>
     id_store st = (\<lambda>a. if a < n then int (21 + a) else - 1)"

section \<open>Properties of the size test\<close>

lemma unat_ucast_uoff:
  assumes "LENGTH(64) \<le> LENGTH('w::len)"
  shows "unat (ucast (p :: 64 word) :: 'w word) = unat p"
proof -
  have "is_up (ucast :: 64 word \<Rightarrow> 'w word)"
    using assms by (simp add: is_up)
  then have "uint (ucast p :: 'w word) = uint p"
    by (rule uint_up_ucast)
  then show ?thesis
    by (simp only: unat_eq_nat_uint)
qed

text \<open>
  C2. When the limit operand can be read and the message has a physical size, executing
  the opcode returns true and sets the test register to "physical size > limit" for
  SIZE-OVER and to "physical size < limit" for SIZE-UNDER, whatever the register held; so
  a size equal to the limit gives false in both. The comparison is on \<^verbatim>\<open>sieve_size_t\<close>,
  which is taken to be at least as wide as the 64 bits of the physical size.
\<close>

theorem tst_size_opcode_execute_compares:
  fixes renv :: "('w::len word) sieve_runtime_env" and limit :: "'w word"
  assumes "LENGTH(64) \<le> LENGTH('w)"
    and "opr_number_read renv address = Some (address', limit)"
    and "physical_size renv = Some psize"
  shows "tst_size_opcode_execute Tst_size_over_opcode renv address =
           (True, address', renv\<lparr>printed := printed renv @ [''SIZE-OVER''],
                                  test_result := (unat psize > unat limit)\<rparr>) \<and>
         tst_size_opcode_execute Tst_size_under_opcode renv address =
           (True, address', renv\<lparr>printed := printed renv @ [''SIZE-UNDER''],
                                  test_result := (unat psize < unat limit)\<rparr>) \<and>
         (unat psize = unat limit \<longrightarrow>
            \<not> test_result (snd (snd (tst_size_opcode_execute Tst_size_over_opcode renv address))) \<and>
            \<not> test_result (snd (snd (tst_size_opcode_execute Tst_size_under_opcode renv address))))"
  using assms
  by (simp add: tst_size_opcode_execute_def tst_size_get_def
      sieve_interpreter_set_test_result_def word_less_nat_alt unat_ucast_uoff)

theorem tst_size_opcode_execute_compares_witness:
  "test_result (snd (snd (tst_size_opcode_execute Tst_size_over_opcode (example_renv 1024) 0))) \<and>
   \<not> test_result (snd (snd (tst_size_opcode_execute Tst_size_under_opcode (example_renv 1024) 0))) \<and>
   \<not> test_result (snd (snd (tst_size_opcode_execute Tst_size_over_opcode (example_renv 2048) 0))) \<and>
   \<not> test_result (snd (snd (tst_size_opcode_execute Tst_size_under_opcode (example_renv 2048) 0)))"
  using tst_size_opcode_execute_compares [where 'w = 64, of "example_renv 1024" 0 2 1024 2048]
    tst_size_opcode_execute_compares [where 'w = 64, of "example_renv 2048" 0 2 2048 2048]
  by (simp add: example_renv_def)

lemma validate_size_tags_count:
  "validate_size_tags v args tst = (True, v', args', tst') \<Longrightarrow>
     (if type (data tst) = SIZE_UNASSIGNED
      then (length (filter is_size_tag args) = 0 \<and> type (data tst') = SIZE_UNASSIGNED) \<or>
           (length (filter is_size_tag args) = 1 \<and> type (data tst') \<noteq> SIZE_UNASSIGNED)
      else length (filter is_size_tag args) = 0 \<and> type (data tst') = type (data tst))"
proof (induction v args tst arbitrary: v' args' tst' rule: validate_size_tags.induct)
  case (1 validator tst)
  then show ?case by simp
next
  case (2 validator t rest tst)
  show ?case
  proof (cases "t = ''over''")
    case True
    with "2.prems" obtain v1 a1 t1 where
      s: "tst_size_validate_over_tag validator (Tag_arg t # rest) tst = (True, v1, a1, t1)"
      and r: "validate_size_tags v1 rest t1 = (True, v', args', tst')"
      by (auto split: prod.splits bool.splits)
    from s have u: "type (data tst) = SIZE_UNASSIGNED" and t1: "type (data t1) = SIZE_OVER"
      by (auto simp: tst_size_validate_over_tag_def split: if_splits)
    from "2.IH"(1) [OF True s [symmetric] _ refl refl r] True t1 u
    show ?thesis by simp
  next
    case False
    note notover = this
    show ?thesis
    proof (cases "t = ''under''")
      case True
      with notover "2.prems" obtain v1 a1 t1 where
        s: "tst_size_validate_under_tag validator (Tag_arg t # rest) tst = (True, v1, a1, t1)"
        and r: "validate_size_tags v1 rest t1 = (True, v', args', tst')"
        by (auto split: prod.splits bool.splits)
      from s have u: "type (data tst) = SIZE_UNASSIGNED" and t1: "type (data t1) = SIZE_UNDER"
        by (auto simp: tst_size_validate_under_tag_def split: if_splits)
      from "2.IH"(2) [OF notover True s [symmetric] _ refl refl r] True t1 u
      show ?thesis by simp
    next
      case False
      with notover "2.prems" show ?thesis by simp
    qed
  qed
qed (auto split: prod.splits)

text \<open>
  C9. The validation of a size test succeeds only when its arguments hold exactly one
  \<open>:over\<close> or \<open>:under\<close> tag. With no tag recorded in the context,
  \<^verbatim>\<open>tst_size_validate\<close> reports that one of the tags is required and fails; with a tag
  already recorded, each of the two tag validators reports the duplicate-tag error and
  fails, leaving the arguments and the context as they were.
\<close>

theorem tst_size_exactly_one_tag:
  "(fst (validate_size_test vf v args tst) \<longrightarrow> length (filter is_size_tag args) = 1) \<and>
   (type (data tst) = SIZE_UNASSIGNED \<longrightarrow>
      tst_size_validate vf v tst =
        (False, sieve_command_validate_error v
           ''the size test requires either the :under or the :over tag to be specified'')) \<and>
   (type (data tst) \<noteq> SIZE_UNASSIGNED \<longrightarrow>
      tst_size_validate_over_tag v arg tst =
        (False, sieve_command_validate_error v TST_SIZE_ERROR_DUP_TAG, arg, tst) \<and>
      tst_size_validate_under_tag v arg tst =
        (False, sieve_command_validate_error v TST_SIZE_ERROR_DUP_TAG, arg, tst))"
proof -
  have "length (filter is_size_tag args) = 1" if ok: "fst (validate_size_test vf v args tst)"
  proof -
    let ?tst = "tst\<lparr>data := \<lparr>type = SIZE_UNASSIGNED\<rparr>\<rparr>"
    from ok obtain v' args' tst' where
      tags: "validate_size_tags v args ?tst = (True, v', args', tst')"
      by (auto simp: validate_size_test_def tst_size_pre_validate_def split: prod.splits bool.splits)
    from ok tags obtain a where a: "args' = [a]"
      and val: "fst (tst_size_validate vf v' (tst'\<lparr>first_positional := a\<rparr>))"
      by (auto simp: validate_size_test_def tst_size_pre_validate_def Let_def
          split: prod.splits bool.splits list.splits)
    from val have "type (data tst') \<noteq> SIZE_UNASSIGNED"
      by (auto simp: tst_size_validate_def Let_def split: if_splits)
    with validate_size_tags_count [OF tags] show ?thesis by simp
  qed
  then show ?thesis
    by (simp add: tst_size_validate_def tst_size_validate_over_tag_def
        tst_size_validate_under_tag_def Let_def)
qed

theorem tst_size_exactly_one_tag_witness:
  "fst (validate_size_test vf_accept \<lparr>errors = []\<rparr> [Tag_arg ''over'', Number_arg 1024]
          (size_tst SIZE_UNASSIGNED)) \<and>
   length (filter is_size_tag [Tag_arg ''over'', Number_arg 1024]) = 1 \<and>
   \<not> fst (tst_size_validate vf_accept \<lparr>errors = []\<rparr> (size_tst SIZE_UNASSIGNED)) \<and>
   \<not> fst (tst_size_validate_under_tag \<lparr>errors = []\<rparr> [Tag_arg ''under'', Number_arg 1024]
            (size_tst SIZE_OVER))"
  using tst_size_exactly_one_tag [of vf_accept "\<lparr>errors = []\<rparr>"
      "[Tag_arg ''over'', Number_arg 1024]" "size_tst SIZE_UNASSIGNED" "[]"]
    tst_size_exactly_one_tag [of vf_accept "\<lparr>errors = []\<rparr>" "[]" "size_tst SIZE_OVER"
      "[Tag_arg ''under'', Number_arg 1024]"]
  by (simp add: validate_size_test_def tst_size_pre_validate_def tst_size_validate_over_tag_def
      tst_size_validate_def vf_accept_def size_tst_def Let_def)

section \<open>Properties of script execution\<close>

text \<open>
  C3. When the interpreter was created and finishes with the status of a normal runtime
  failure, \<^verbatim>\<open>sieve_execute\<close> makes exactly one call on the result, the implicit keep. It
  returns the failure status exactly when the keep succeeded, TEMP_FAILURE exactly when
  the keep failed temporarily, and KEEP_FAILED exactly when the keep failed otherwise; so
  a status other than KEEP_FAILED means that the message was kept or that the caller is
  told to try again.
\<close>

theorem sieve_execute_failure_implicit_keep:
  assumes wf: "exit_codes_wf c"
    and created: "interpreter_created env"
    and failed: "interpreter_run env = SIEVE_EXEC_FAILURE c"
  shows "snd (sieve_execute c env) = [Result_implicit_keep] \<and>
         (fst (sieve_execute c env) = SIEVE_EXEC_FAILURE c \<longleftrightarrow>
            result_implicit_keep env = SIEVE_EXEC_OK c) \<and>
         (fst (sieve_execute c env) = SIEVE_EXEC_TEMP_FAILURE c \<longleftrightarrow>
            result_implicit_keep env = SIEVE_EXEC_TEMP_FAILURE c) \<and>
         (fst (sieve_execute c env) = SIEVE_EXEC_KEEP_FAILED c \<longleftrightarrow>
            result_implicit_keep env \<noteq> SIEVE_EXEC_OK c \<and>
            result_implicit_keep env \<noteq> SIEVE_EXEC_TEMP_FAILURE c) \<and>
         fst (sieve_execute c env) \<in>
           {SIEVE_EXEC_FAILURE c, SIEVE_EXEC_TEMP_FAILURE c, SIEVE_EXEC_KEEP_FAILED c}"
proof -
  have run: "sieve_run c env = SIEVE_EXEC_FAILURE c"
    using created failed by (simp add: sieve_run_def)
  have nonpos: "\<not> 0 < SIEVE_EXEC_FAILURE c"
    using wf by (simp add: exit_codes_wf_def)
  have d: "SIEVE_EXEC_FAILURE c \<noteq> SIEVE_EXEC_TEMP_FAILURE c"
      "SIEVE_EXEC_FAILURE c \<noteq> SIEVE_EXEC_KEEP_FAILED c"
      "SIEVE_EXEC_TEMP_FAILURE c \<noteq> SIEVE_EXEC_KEEP_FAILED c"
      "SIEVE_EXEC_OK c \<noteq> SIEVE_EXEC_TEMP_FAILURE c"
    using wf by (auto simp: exit_codes_wf_def)
  show ?thesis
    using nonpos d by (auto simp: sieve_execute_def run Let_def)
qed

theorem sieve_execute_failure_implicit_keep_witness:
  "exit_codes_wf example_codes \<and> interpreter_created script_failed \<and>
   interpreter_run script_failed = SIEVE_EXEC_FAILURE example_codes \<and>
   sieve_execute example_codes script_failed = (0, [Result_implicit_keep]) \<and>
   sieve_execute example_codes (script_failed\<lparr>result_implicit_keep := - 1\<rparr>) =
     (- 1, [Result_implicit_keep]) \<and>
   sieve_execute example_codes (script_failed\<lparr>result_implicit_keep := 0\<rparr>) =
     (- 3, [Result_implicit_keep])"
  using sieve_execute_failure_implicit_keep [of example_codes script_failed]
    sieve_execute_failure_implicit_keep [of example_codes
      "script_failed\<lparr>result_implicit_keep := - 1\<rparr>"]
    sieve_execute_failure_implicit_keep [of example_codes
      "script_failed\<lparr>result_implicit_keep := 0\<rparr>"]
  by (simp add: example_codes_def script_failed_def exit_codes_wf_def prod_eq_iff)

text \<open>
  C4, as the claim states it, fails for a multiscript in test mode: after one script was
  tested successfully the chain is active; when the result, which
  \<^verbatim>\<open>sieve_multiscript_test\<close> has marked executed, counts as executed,
  \<^verbatim>\<open>sieve_multiscript_tempfail\<close> still returns TEMP_FAILURE without an implicit keep.
\<close>

theorem sieve_multiscript_tempfail_test_mode_counterexample:
  "active (snd (sieve_multiscript_run example_codes script_ok
                  (sieve_multiscript_start_test example_codes))) \<and>
   result_executed (snd (sieve_multiscript_run example_codes script_ok
                           (sieve_multiscript_start_test example_codes))) \<and>
   sieve_multiscript_tempfail example_codes
     (snd (sieve_multiscript_run example_codes script_ok
             (sieve_multiscript_start_test example_codes)))
     (SIEVE_EXEC_OK example_codes) =
     (SIEVE_EXEC_TEMP_FAILURE example_codes, [Result_set_keep_action])"
  by (simp add: sieve_multiscript_run_def sieve_multiscript_start_test_def
      sieve_multiscript_start_execute_def sieve_run_def collaborators.truncate_def
      sieve_multiscript_test_def script_ok_def example_codes_def
      sieve_multiscript_tempfail_def Let_def)

text \<open>
  C4, amended. \<^verbatim>\<open>sieve_multiscript_tempfail\<close> returns the last recorded status when the
  chain is inactive. When the chain is active it returns TEMP_FAILURE if no part of the
  result has been executed or the multiscript runs in test mode; only outside test mode,
  with part of the result executed, it falls back to the implicit keep and returns
  FAILURE if the keep succeeds and KEEP_FAILED otherwise.
\<close>

theorem sieve_multiscript_tempfail_cases:
  "sieve_multiscript_tempfail c mscript keep_ret =
     (if \<not> active mscript then (sieve_multiscript_status mscript, [Result_set_keep_action])
      else if teststream mscript \<or> \<not> result_executed mscript
        then (SIEVE_EXEC_TEMP_FAILURE c, [Result_set_keep_action])
      else if keep_ret = SIEVE_EXEC_OK c
        then (SIEVE_EXEC_FAILURE c, [Result_set_keep_action, Result_implicit_keep])
      else (SIEVE_EXEC_KEEP_FAILED c, [Result_set_keep_action, Result_implicit_keep]))"
  by (simp add: sieve_multiscript_tempfail_def sieve_multiscript_status_def Let_def)

theorem sieve_multiscript_tempfail_cases_witness:
  "sieve_multiscript_tempfail example_codes
     ((sieve_multiscript_start_execute example_codes)\<lparr>result_executed := True\<rparr>) 1 =
     (0, [Result_set_keep_action, Result_implicit_keep]) \<and>
   sieve_multiscript_tempfail example_codes
     ((sieve_multiscript_start_execute example_codes)\<lparr>result_executed := True\<rparr>) 0 =
     (- 3, [Result_set_keep_action, Result_implicit_keep]) \<and>
   sieve_multiscript_tempfail example_codes (sieve_multiscript_start_execute example_codes) 1 =
     (- 1, [Result_set_keep_action]) \<and>
   sieve_multiscript_tempfail example_codes
     ((sieve_multiscript_start_execute example_codes)\<lparr>active := False, status := - 3\<rparr>) 1 =
     (- 3, [Result_set_keep_action])"
  using sieve_multiscript_tempfail_cases [of example_codes
      "(sieve_multiscript_start_execute example_codes)\<lparr>result_executed := True\<rparr>" 1]
    sieve_multiscript_tempfail_cases [of example_codes
      "(sieve_multiscript_start_execute example_codes)\<lparr>result_executed := True\<rparr>" 0]
    sieve_multiscript_tempfail_cases [of example_codes
      "sieve_multiscript_start_execute example_codes" 1]
    sieve_multiscript_tempfail_cases [of example_codes
      "(sieve_multiscript_start_execute example_codes)\<lparr>active := False, status := - 3\<rparr>" 1]
  by (simp add: sieve_multiscript_start_execute_def example_codes_def
      sieve_multiscript_status_def)

section \<open>Properties of the require command\<close>

lemma block_contexts_length: "length (block_contexts t first prev cmds) = length cmds"
  by (induction t first prev cmds rule: block_contexts.induct) auto

lemma block_contexts_nth:
  "i < length cmds \<Longrightarrow>
     block_contexts t first prev cmds ! i =
       (case fst (cmds ! i) of
          None \<Rightarrow> None
        | Some cmd \<Rightarrow>
            Some \<lparr>command = cmd, is_toplevel = t,
                  is_first = (i = 0 \<and> first),
                  prev_context = (if i = 0 then prev else fst (cmds ! (i - 1))),
                  first_positional = snd (cmds ! i), data = \<lparr>type = SIZE_UNASSIGNED\<rparr>\<rparr>)"
proof (induction t first prev cmds arbitrary: i rule: block_contexts.induct)
  case (1 toplevel first prev)
  then show ?case by simp
next
  case (2 toplevel first prev c arg rest)
  show ?case
  proof (cases i)
    case 0
    then show ?thesis by (simp split: option.splits)
  next
    case (Suc j)
    with "2.prems" have "j < length rest" by simp
    from "2.IH" [OF this] Suc show ?thesis
      by (cases j) (simp_all split: option.splits)
  qed
qed

lemma first_require_after:
  assumes "j < k" "fst (cmds ! k) = Some Cmd_require" "fst (cmds ! j) \<noteq> Some Cmd_require"
  shows "\<exists>i. j < i \<and> i \<le> k \<and> fst (cmds ! i) = Some Cmd_require \<and>
           fst (cmds ! (i - 1)) \<noteq> Some Cmd_require"
proof -
  define i where "i = (LEAST n. j < n \<and> fst (cmds ! n) = Some Cmd_require)"
  have ex: "j < k \<and> fst (cmds ! k) = Some Cmd_require" using assms by simp
  then have P: "j < i \<and> fst (cmds ! i) = Some Cmd_require"
    unfolding i_def by (rule LeastI)
  have le: "i \<le> k" unfolding i_def using ex by (rule Least_le)
  have "fst (cmds ! (i - 1)) \<noteq> Some Cmd_require"
  proof
    assume r: "fst (cmds ! (i - 1)) = Some Cmd_require"
    show False
    proof (cases "i - 1 = j")
      case True
      with r assms show False by simp
    next
      case False
      with P have "j < i - 1 \<and> fst (cmds ! (i - 1)) = Some Cmd_require" using r by auto
      then have "i \<le> i - 1" unfolding i_def by (rule Least_le)
      moreover from P have "0 < i" by auto
      ultimately show False by arith
    qed
  qed
  with P le show ?thesis by blast
qed

text \<open>
  C1, as the claim states it, fails: the check looks at the command just before only. In
  a script with a keep command followed by two require commands, the second require is
  preceded by a command that is not a require, and \<^verbatim>\<open>cmd_require_validate\<close> accepts it
  without a diagnostic.
\<close>

theorem cmd_require_validate_after_require_counterexample:
  "fst (late_require_script ! 0) \<noteq> Some Cmd_require \<and>
   fst (late_require_script ! 2) = Some Cmd_require \<and>
   map_option (cmd_require_validate vf_accept \<lparr>errors = []\<rparr>)
       (block_contexts True True None late_require_script ! 2) =
     Some (True, \<lparr>errors = []\<rparr>)"
  by (simp add: late_require_script_def cmd_require_validate_def vf_accept_def)

text \<open>
  C1, amended. \<^verbatim>\<open>cmd_require_validate\<close> succeeds only when the command is at top level
  and is first, or the command just before it is a require or has no context; any other
  placement makes it report the placement diagnostic and fail, and a command so placed
  passes the placement check: the result is that of loading what its argument names. So
  in a script in which a command that is not a require comes before a require, and every
  command from that one up to the require has a context, the first require after that
  command fails with the placement diagnostic; and a require that comes right after a
  command without a context is placed well.
\<close>

theorem cmd_require_validate_placement:
  "(fst (cmd_require_validate vf v cmd) \<longrightarrow> placement_ok cmd) \<and>
   (\<not> placement_ok cmd \<longrightarrow>
      cmd_require_validate vf v cmd = (False, sieve_command_validate_error v require_placement_error)) \<and>
   (placement_ok cmd \<longrightarrow>
      (first_positional cmd = String_arg s \<longrightarrow>
         cmd_require_validate vf v cmd = (fst (extension_load vf v s), snd (extension_load vf v s))) \<and>
      (first_positional cmd = String_list_arg ss \<longrightarrow>
         cmd_require_validate vf v cmd = require_strlist vf v ss True)) \<and>
   (j < k \<and> k < length cmds \<and> fst (cmds ! k) = Some Cmd_require \<and>
    fst (cmds ! j) \<noteq> Some Cmd_require \<and> (\<forall>m. j \<le> m \<and> m < k \<longrightarrow> fst (cmds ! m) \<noteq> None) \<longrightarrow>
      (\<exists>i ctx. j < i \<and> i \<le> k \<and> block_contexts True True None cmds ! i = Some ctx \<and>
           command ctx = Cmd_require \<and>
           cmd_require_validate vf v ctx =
             (False, sieve_command_validate_error v require_placement_error))) \<and>
   (0 < k \<and> k < length cmds \<and> fst (cmds ! k) = Some Cmd_require \<and> fst (cmds ! (k - 1)) = None \<longrightarrow>
      (\<exists>ctx. block_contexts True True None cmds ! k = Some ctx \<and> command ctx = Cmd_require \<and>
           placement_ok ctx))"
proof (intro conjI impI)
  assume "fst (cmd_require_validate vf v cmd)"
  then show "placement_ok cmd"
    by (auto simp: cmd_require_validate_def placement_ok_def split: if_splits)
next
  assume "\<not> placement_ok cmd"
  then show "cmd_require_validate vf v cmd = (False, sieve_command_validate_error v require_placement_error)"
    by (auto simp: cmd_require_validate_def placement_ok_def)
next
  assume "placement_ok cmd" "first_positional cmd = String_arg s"
  then show "cmd_require_validate vf v cmd = (fst (extension_load vf v s), snd (extension_load vf v s))"
    by (auto simp: cmd_require_validate_def placement_ok_def split: prod.splits)
next
  assume "placement_ok cmd" "first_positional cmd = String_list_arg ss"
  then show "cmd_require_validate vf v cmd = require_strlist vf v ss True"
    by (auto simp: cmd_require_validate_def placement_ok_def)
next
  assume a: "j < k \<and> k < length cmds \<and> fst (cmds ! k) = Some Cmd_require \<and>
    fst (cmds ! j) \<noteq> Some Cmd_require \<and> (\<forall>m. j \<le> m \<and> m < k \<longrightarrow> fst (cmds ! m) \<noteq> None)"
  then obtain i where i: "j < i" "i \<le> k" "fst (cmds ! i) = Some Cmd_require"
      "fst (cmds ! (i - 1)) \<noteq> Some Cmd_require"
    using first_require_after [of j k cmds] by blast
  with a have len: "i < length cmds" by simp
  from i a have "j \<le> i - 1 \<and> i - 1 < k" by arith
  with a have "fst (cmds ! (i - 1)) \<noteq> None" by blast
  then obtain c where c: "fst (cmds ! (i - 1)) = Some c" by auto
  with i have ne: "c \<noteq> Cmd_require" by simp
  let ?ctx = "\<lparr>command = Cmd_require, is_toplevel = True, is_first = False, prev_context = Some c,
      first_positional = snd (cmds ! i), data = \<lparr>type = SIZE_UNASSIGNED\<rparr>\<rparr>"
  have "block_contexts True True None cmds ! i = Some ?ctx"
    using i c by (simp add: block_contexts_nth [OF len])
  moreover have "cmd_require_validate vf v ?ctx =
      (False, sieve_command_validate_error v require_placement_error)"
    using ne by (simp add: cmd_require_validate_def)
  ultimately show "\<exists>i ctx. j < i \<and> i \<le> k \<and> block_contexts True True None cmds ! i = Some ctx \<and>
           command ctx = Cmd_require \<and>
           cmd_require_validate vf v ctx =
             (False, sieve_command_validate_error v require_placement_error)"
    using i by (intro exI [of _ i] exI [of _ ?ctx]) simp
next
  assume a: "0 < k \<and> k < length cmds \<and> fst (cmds ! k) = Some Cmd_require \<and> fst (cmds ! (k - 1)) = None"
  then have len: "k < length cmds" by simp
  from a show "\<exists>ctx. block_contexts True True None cmds ! k = Some ctx \<and> command ctx = Cmd_require \<and>
           placement_ok ctx"
    by (simp add: block_contexts_nth [OF len] placement_ok_def)
qed

text \<open>
  The amended C1 at the two scripts: the first require after the keep command fails, and
  the require after the command without a context is accepted.
\<close>

theorem cmd_require_validate_placement_witness:
  "map_option (cmd_require_validate vf_accept \<lparr>errors = []\<rparr>)
       (block_contexts True True None late_require_script ! 1) =
     Some (False, \<lparr>errors = [require_placement_error]\<rparr>) \<and>
   map_option (cmd_require_validate vf_accept \<lparr>errors = []\<rparr>)
       (block_contexts True True None no_context_script ! 2) =
     Some (True, \<lparr>errors = []\<rparr>)"
proof -
  let ?v = "\<lparr>errors = []\<rparr>"
  note late = cmd_require_validate_placement [where vf = vf_accept and v = ?v and j = 0 and k = 1
      and cmds = late_require_script]
  have pre: "(0::nat) < 1 \<and> 1 < length late_require_script \<and>
      fst (late_require_script ! 1) = Some Cmd_require \<and>
      fst (late_require_script ! 0) \<noteq> Some Cmd_require \<and>
      (\<forall>m. 0 \<le> m \<and> m < 1 \<longrightarrow> fst (late_require_script ! m) \<noteq> None)"
    by (simp add: late_require_script_def)
  from late [THEN conjunct2, THEN conjunct2, THEN conjunct2, THEN conjunct1, THEN mp, OF pre]
  obtain i ctx where i: "0 < i" "i \<le> 1"
    and ctx: "block_contexts True True None late_require_script ! i = Some ctx"
    and res: "cmd_require_validate vf_accept ?v ctx =
      (False, sieve_command_validate_error ?v require_placement_error)"
    by blast
  from i have "i = 1" by simp
  with ctx res have 1: "map_option (cmd_require_validate vf_accept ?v)
       (block_contexts True True None late_require_script ! 1) =
     Some (False, \<lparr>errors = [require_placement_error]\<rparr>)"
    by (simp add: sieve_command_validate_error_def)
  note free = cmd_require_validate_placement [where vf = vf_accept and v = ?v and k = 2
      and cmds = no_context_script]
  have pre2: "(0::nat) < 2 \<and> 2 < length no_context_script \<and>
      fst (no_context_script ! 2) = Some Cmd_require \<and> fst (no_context_script ! (2 - 1)) = None"
    by (simp add: no_context_script_def)
  from free [THEN conjunct2, THEN conjunct2, THEN conjunct2, THEN conjunct2, THEN mp, OF pre2]
  obtain ctx2 where ctx2: "block_contexts True True None no_context_script ! 2 = Some ctx2"
    and ok: "placement_ok ctx2"
    by blast
  have arg: "first_positional ctx2 = String_arg ''fileinto''"
    using ctx2 by (auto simp: no_context_script_def)
  note str = cmd_require_validate_placement [where vf = vf_accept and v = ?v and cmd = ctx2
      and s = "''fileinto''"]
  from str [THEN conjunct2, THEN conjunct2, THEN conjunct1, THEN mp, OF ok, THEN conjunct1, THEN mp, OF arg]
  have "cmd_require_validate vf_accept ?v ctx2 =
      (fst (extension_load vf_accept ?v ''fileinto''), snd (extension_load vf_accept ?v ''fileinto''))" .
  with ctx2 have 2: "map_option (cmd_require_validate vf_accept ?v)
       (block_contexts True True None no_context_script ! 2) = Some (True, ?v)"
    by (simp add: vf_accept_def)
  from 1 2 show ?thesis by blast
qed


section \<open>Properties of the address match\<close>

lemma offered_parts_Cons:
  "offered_parts e (a # addrs) =
     (if domain a \<noteq> None then (case e a of None \<Rightarrow> offered_parts e addrs | Some p \<Rightarrow> p # offered_parts e addrs)
      else offered_parts e addrs)"
  by (simp add: offered_parts_def List.map_filter_simps split: option.splits)

lemma offered_parts_Nil: "offered_parts e [] = []"
  by (simp add: offered_parts_def List.map_filter_simps)

lemma set_offered_parts:
  "set (offered_parts e addrs) = {p. \<exists>a\<in>set addrs. domain a \<noteq> None \<and> e a = Some p}"
  by (induction addrs) (auto simp: offered_parts_Cons offered_parts_Nil split: option.splits)

lemma address_match_loop_result:
  assumes "\<forall>a\<in>set addrs. domain a \<noteq> None \<longrightarrow> mailbox a \<noteq> None"
  shows "address_match_loop e m addrs tried =
           Inr (\<exists>p\<in>set (offered_parts e addrs). m p,
                tried @ tried_until_match m (offered_parts e addrs))"
  using assms
proof (induction addrs arbitrary: tried)
  case Nil
  then show ?case by (simp add: offered_parts_Nil tried_until_match_def)
next
  case (Cons a addrs)
  then have IH: "\<And>tried. address_match_loop e m addrs tried =
           Inr (\<exists>p\<in>set (offered_parts e addrs). m p,
                tried @ tried_until_match m (offered_parts e addrs))"
    by simp
  show ?case
  proof (cases "domain a")
    case None
    then show ?thesis by (simp add: IH offered_parts_Cons)
  next
    case (Some d)
    with Cons.prems obtain mb where mb: "mailbox a = Some mb" by auto
    show ?thesis
    proof (cases "e a")
      case None
      with Some mb show ?thesis by (simp add: IH offered_parts_Cons)
    next
      case (Some p)
      with \<open>domain a = Some d\<close> mb show ?thesis
        by (simp add: IH offered_parts_Cons tried_until_match_def)
    qed
  qed
qed

lemma address_match_loop_skips:
  "address_match_loop e m (filter (\<lambda>a. domain a \<noteq> None) addrs) tried =
   address_match_loop e m addrs tried"
  by (induction addrs arbitrary: tried) (auto split: option.splits)

text \<open>
  C10. Let the parsed addresses satisfy what \<^verbatim>\<open>sieve_address_match\<close> asserts of them: an
  address with a domain has a mailbox. Then the function returns, its result is true
  exactly when some parsed address with a domain yields a part that matches, and the
  values handed to the match are the parts of the addresses with a domain, in order, up
  to and including the first one that matches. Addresses without a domain are skipped:
  removing them from the parsed list changes nothing, whatever the address part.
\<close>

theorem sieve_address_match_iff:
  assumes "\<forall>a\<in>set (parse data_str). domain a \<noteq> None \<longrightarrow> mailbox a \<noteq> None"
  shows "sieve_address_match parse extract_from match_value data_str =
           Inr (\<exists>a\<in>set (parse data_str). domain a \<noteq> None \<and>
                  (\<exists>part. extract_from a = Some part \<and> match_value part),
                tried_until_match match_value (offered_parts extract_from (parse data_str))) \<and>
         sieve_address_match (\<lambda>s. filter (\<lambda>a. domain a \<noteq> None) (parse s))
             extract_from match_value data_str =
           sieve_address_match parse extract_from match_value data_str"
proof (intro conjI)
  have loop: "address_match_loop extract_from match_value (parse data_str) [] =
      Inr (\<exists>p\<in>set (offered_parts extract_from (parse data_str)). match_value p,
           tried_until_match match_value (offered_parts extract_from (parse data_str)))"
    using address_match_loop_result [OF assms, of extract_from match_value "[]"] by simp
  have ex: "(\<exists>p\<in>set (offered_parts extract_from (parse data_str)). match_value p) \<longleftrightarrow>
        (\<exists>a\<in>set (parse data_str). domain a \<noteq> None \<and>
                  (\<exists>part. extract_from a = Some part \<and> match_value part))"
    unfolding set_offered_parts by blast
  show "sieve_address_match parse extract_from match_value data_str =
           Inr (\<exists>a\<in>set (parse data_str). domain a \<noteq> None \<and>
                  (\<exists>part. extract_from a = Some part \<and> match_value part),
                tried_until_match match_value (offered_parts extract_from (parse data_str)))"
    unfolding sieve_address_match_def loop ex by (rule refl)
  show "sieve_address_match (\<lambda>s. filter (\<lambda>a. domain a \<noteq> None) (parse s))
             extract_from match_value data_str =
           sieve_address_match parse extract_from match_value data_str"
    unfolding sieve_address_match_def by (rule address_match_loop_skips)
qed

theorem sieve_address_match_iff_witness:
  "sieve_address_match (\<lambda>s. example_addresses) addrp_localpart_extract_from
       (\<lambda>part. part = ''alice'') ''friends:;, bob@example.org, Alice <alice@example.org>'' =
     Inr (True, [''bob'', ''alice''])"
  using sieve_address_match_iff [of "\<lambda>s. example_addresses"
      "''friends:;, bob@example.org, Alice <alice@example.org>''"
      addrp_localpart_extract_from "\<lambda>part. part = ''alice''"]
  by (simp add: example_addresses_def sieve_address_match_def addrp_localpart_extract_from_def)

section \<open>Properties of the extension registry\<close>

subsection \<open>The loop over the names of an extension list\<close>

lemma split_at_spaces_nonempty: "split_at_spaces s \<noteq> []"
  by (induction s) (auto split: list.splits)

lemma set_string_loop_Some_nonempty:
  assumes "set_string_loop index bp acc = Some y"
  shows "bp \<noteq> []"
proof (rule set_string_loop.raw_induct [where P = "\<lambda>index bp acc y. bp \<noteq> []", OF _ assms])
  fix f :: "(string \<rightharpoonup> ereg_ptr) \<Rightarrow> string \<Rightarrow> ereg_ptr list \<times> string list \<Rightarrow>
    (ereg_ptr list \<times> string list) option"
  fix index bp acc y
  assume IH: "\<And>i b a y. f i b a = Some y \<Longrightarrow> b \<noteq> []"
    and step: "(if next_bp bp = [] \<or> ep_found bp
                then f index (next_bp bp) (set_string_name index (token_name bp) acc)
                else Some (set_string_name index (token_name bp) acc)) = Some y"
  show "bp \<noteq> []"
  proof
    assume "bp = []"
    with step have "f index [] (set_string_name index (token_name []) acc) = Some y"
      by (simp add: next_bp_def ep_found_def)
    from IH [OF this] show False by simp
  qed
qed

lemma set_string_loop_empty: "set_string_loop index [] acc = None"
  using set_string_loop_Some_nonempty [of index "[]" acc] by (cases "set_string_loop index [] acc") auto

lemma no_space_split: "CHR '' '' \<notin> set bp \<Longrightarrow> split_at_spaces bp = [bp]"
  by (induction bp) auto

lemma space_split:
  "CHR '' '' \<in> set bp \<Longrightarrow>
     split_at_spaces bp = token_name bp # split_at_spaces (next_bp bp)"
proof (induction bp)
  case Nil
  then show ?case by simp
next
  case (Cons c cs)
  show ?case
  proof (cases "c = CHR '' ''")
    case True
    then show ?thesis by (simp add: token_name_def next_bp_def ep_found_def)
  next
    case False
    with Cons.prems have "CHR '' '' \<in> set cs" by simp
    from Cons.IH [OF this] False this show ?thesis
      by (simp add: token_name_def next_bp_def ep_found_def)
  qed
qed

lemma next_bp_shorter:
  assumes "CHR '' '' \<in> set bp"
  shows "length (next_bp bp) < length bp"
proof -
  let ?d = "dropWhile (\<lambda>c. c \<noteq> CHR '' '') bp"
  have "?d \<noteq> []"
    using assms by (simp add: dropWhile_eq_Nil_conv)
  moreover have "length ?d \<le> length bp"
    by (rule length_dropWhile_le)
  ultimately have "length (drop 1 ?d) < length bp"
    by (cases ?d) auto
  then show ?thesis
    using assms by (simp only: next_bp_def ep_found_def if_True)
qed

lemma last_next_bp:
  assumes "CHR '' '' \<in> set bp"
  shows "(bp \<noteq> [] \<and> last bp \<noteq> CHR '' '') \<longleftrightarrow>
         (next_bp bp \<noteq> [] \<and> last (next_bp bp) \<noteq> CHR '' '')"
proof -
  let ?P = "\<lambda>c. c \<noteq> CHR '' ''"
  have split: "bp = takeWhile ?P bp @ dropWhile ?P bp" by simp
  have ne: "dropWhile ?P bp \<noteq> []"
    using assms by (simp add: dropWhile_eq_Nil_conv)
  then obtain d ds where d: "dropWhile ?P bp = d # ds" by (cases "dropWhile ?P bp") auto
  then have "d = CHR '' ''" using hd_dropWhile [of ?P bp] by simp
  with d have nb: "next_bp bp = ds" and bp: "bp = takeWhile ?P bp @ CHR '' '' # ds"
    using assms split by (simp_all add: next_bp_def ep_found_def)
  have "last bp = (if ds = [] then CHR '' '' else last ds)"
    by (subst bp) simp
  with nb assms show ?thesis by auto
qed

theorem set_string_loop_eq:
  "set_string_loop index bp acc =
     (if bp \<noteq> [] \<and> last bp \<noteq> CHR '' ''
      then Some (fold_names index (split_at_spaces bp) acc) else None)"
proof (induction bp arbitrary: acc rule: length_induct)
  case (1 bp)
  show ?case
  proof (cases "CHR '' '' \<in> set bp")
    case True
    have "set_string_loop index bp acc =
            set_string_loop index (next_bp bp) (set_string_name index (token_name bp) acc)"
      by (subst set_string_loop.simps) (simp add: ep_found_def True)
    also have "\<dots> = (if next_bp bp \<noteq> [] \<and> last (next_bp bp) \<noteq> CHR '' ''
        then Some (fold_names index (split_at_spaces (next_bp bp))
                     (set_string_name index (token_name bp) acc)) else None)"
      using "1.IH" next_bp_shorter [OF True] by blast
    finally show ?thesis
      using last_next_bp [OF True] by (simp add: space_split [OF True] fold_names_def)
  next
    case False
    show ?thesis
    proof (cases "bp = []")
      case True
      then show ?thesis by (simp add: set_string_loop_empty)
    next
      case ne: False
      with False have "last bp \<noteq> CHR '' ''" by (metis last_in_set)
      moreover have "token_name bp = bp"
        using False by (auto simp: token_name_def takeWhile_eq_all_conv)
      moreover have "next_bp bp = bp" using False by (simp add: next_bp_def ep_found_def)
      ultimately show ?thesis
        using ne False
        by (subst set_string_loop.simps) (simp add: ep_found_def no_space_split fold_names_def)
    qed
  qed
qed

subsection \<open>Registration keeps the registry well-formed\<close>

lemma ids_dense_nth: "ids_dense st \<Longrightarrow> k < length (extensions st) \<Longrightarrow> ext_id (extensions st ! k) = int k"
proof -
  assume d: "ids_dense st" and k: "k < length (extensions st)"
  have "ext_id (extensions st ! k) = map ext_id (extensions st) ! k" using k by simp
  also have "\<dots> = map int [0..<length (extensions st)] ! k" using d by (simp add: ids_dense_def)
  also have "\<dots> = int k" using k by simp
  finally show ?thesis .
qed

lemma registry_wf_init: "registry_wf (sieve_extensions_init_registry st)"
  by (simp add: registry_wf_def ids_dense_def index_sound_def index_onto_def
      sieve_extensions_init_registry_def)

lemma index_soundD:
  "index_sound st \<Longrightarrow> extension_index st nm = Some p \<Longrightarrow>
     fst p = array_buffer st \<and> snd p < length (extensions st) \<and>
     (\<forall>e. extension (extensions st ! snd p) = Some e \<longrightarrow> name e = nm)"
  unfolding index_sound_def by blast

lemma index_ontoD:
  "index_onto st \<Longrightarrow> extension_index st nm = Some p \<Longrightarrow> extension_index st nm' = Some p \<Longrightarrow>
     nm = nm'"
  unfolding index_onto_def by blast

lemma register_if_new_known:
  "extension_index st (name ext) = Some ereg \<Longrightarrow> register_if_new st ext = (ereg, st)"
  by (simp add: register_if_new_def)

lemma register_if_new_fresh:
  "extension_index st (name ext) = None \<Longrightarrow> length (extensions st) < 30 \<Longrightarrow>
     register_if_new st ext =
       ((array_buffer st, length (extensions st)),
        st\<lparr>extensions := extensions st @
               [\<lparr>extension = None, ext_id = int (length (extensions st)), required = False,
                 loaded = False\<rparr>],
            extension_index :=
              (extension_index st)(name ext \<mapsto> (array_buffer st, length (extensions st)))\<rparr>)"
  by (simp add: register_if_new_def Let_def)

lemma register_if_new_wf:
  assumes "registry_wf st" "stays_in_place st ext" "register_if_new st ext = (ereg, st')"
  shows "registry_wf st' \<and> extension_index st' (name ext) = Some ereg \<and>
         fst ereg = array_buffer st' \<and> snd ereg < length (extensions st') \<and>
         array_buffer st' = array_buffer st"
proof (cases "extension_index st (name ext)")
  case (Some j)
  with assms have "ereg = j" "st' = st" by (simp_all add: register_if_new_known)
  with assms(1) Some index_soundD [of st "name ext" j] show ?thesis
    by (simp add: registry_wf_def)
next
  case None
  let ?n = "length (extensions st)" and ?b = "array_buffer st"
  from None assms(2) have room: "?n < 30" by (simp add: stays_in_place_def)
  from None room assms(3) have k: "ereg = (?b, ?n)"
    and st': "st' = st\<lparr>extensions := extensions st @
               [\<lparr>extension = None, ext_id = int ?n, required = False, loaded = False\<rparr>],
            extension_index := (extension_index st)(name ext \<mapsto> (?b, ?n))\<rparr>"
    by (auto simp: register_if_new_fresh)
  from assms(1) have d: "ids_dense st" and s: "index_sound st" and o: "index_onto st"
    by (simp_all add: registry_wf_def)
  have "ids_dense st'" using d by (simp add: st' ids_dense_def)
  moreover have "index_sound st'"
    unfolding index_sound_def
  proof (intro allI impI)
    fix nm p
    assume j: "extension_index st' nm = Some p"
    show "fst p = array_buffer st' \<and> snd p < length (extensions st') \<and>
          (\<forall>e. extension (extensions st' ! snd p) = Some e \<longrightarrow> name e = nm)"
    proof (cases "nm = name ext")
      case True
      with j show ?thesis by (auto simp: st' nth_append)
    next
      case False
      with j have old: "extension_index st nm = Some p" by (simp add: st')
      from index_soundD [OF s old] have "fst p = ?b" "snd p < ?n"
        and "\<forall>e. extension (extensions st ! snd p) = Some e \<longrightarrow> name e = nm"
        by simp_all
      then show ?thesis by (simp add: st' nth_append)
    qed
  qed
  moreover have "index_onto st'"
    unfolding index_onto_def
  proof (intro conjI allI impI)
    fix j assume "j < length (extensions st')"
    then have "j < ?n \<or> j = ?n" by (auto simp: st')
    then show "\<exists>nm. extension_index st' nm = Some (array_buffer st', j)"
    proof
      assume j: "j < ?n"
      with o obtain nm where nm: "extension_index st nm = Some (?b, j)" by (auto simp: index_onto_def)
      with None have "nm \<noteq> name ext" by auto
      with nm show ?thesis by (auto simp: st')
    next
      assume "j = ?n"
      then show ?thesis by (auto simp: st')
    qed
  next
    fix nm nm' p
    assume a: "extension_index st' nm = Some p \<and> extension_index st' nm' = Some p"
    have lt: "\<And>x q. extension_index st x = Some q \<Longrightarrow> snd q < ?n"
      using index_soundD [OF s] by blast
    show "nm = nm'"
    proof (cases "snd p = ?n")
      case True
      have "x = name ext" if "extension_index st' x = Some p" for x
      proof (rule ccontr)
        assume "x \<noteq> name ext"
        with that have "extension_index st x = Some p" by (simp add: st')
        from lt [OF this] True show False by simp
      qed
      from this [of nm] this [of nm'] a show ?thesis by simp
    next
      case False
      with a have "extension_index st nm = Some p \<and> extension_index st nm' = Some p"
        by (auto simp: st' split: if_splits)
      with o show ?thesis by (blast dest: index_ontoD)
    qed
  qed
  ultimately show ?thesis by (simp add: registry_wf_def k st')
qed

lemma load_cases: "load ext \<noteq> None \<and> load ext \<noteq> Some True \<longleftrightarrow> load ext = Some False"
  by (cases "load ext") auto

lemma map_update_same: "(map f xs)[k := f (xs ! k)] = map f xs"
  by (cases "k < length xs") (auto simp: list_eq_iff_nth_eq nth_list_update)

lemma enable_registered_frame:
  assumes "enable_registered st ereg ext ld = (r, st')"
  shows "length (extensions st') = length (extensions st)"
    and "extension_index st' = extension_index st"
    and "map ext_id (extensions st') = map ext_id (extensions st)"
    and "map required (extensions st') = map required (extensions st)"
    and "r = (if load_fails st ereg ext ld then None else Some ereg)"
    and "array_buffer st' = array_buffer st"
    and "array_grow st' = array_grow st"
  using assms
  by (auto simp: enable_registered_def sieve_extension_load_def Let_def load_fails_def load_cases
      map_update map_update_same
      split: if_splits option.splits prod.splits)

lemma enable_registered_extension:
  assumes "enable_registered st ereg ext ld = (r, st')" "i < length (extensions st)"
  shows "extension (extensions st' ! i) =
           (if i = ereg \<and> extension (extensions st ! ereg) = None \<and> r \<noteq> None
            then Some ext else extension (extensions st ! i))"
  using assms
  by (auto simp: enable_registered_def sieve_extension_load_def Let_def nth_list_update
      split: if_splits option.splits prod.splits)

lemma enable_registered_wf:
  assumes wf: "registry_wf st"
    and idx: "extension_index st (name ext) = Some (array_buffer st, ereg)"
    and en: "enable_registered st ereg ext ld = (r, st')"
  shows "registry_wf st'"
proof -
  note fr = enable_registered_frame [OF en]
  from wf have d: "ids_dense st" and s: "index_sound st" and o: "index_onto st"
    by (simp_all add: registry_wf_def)
  have "ids_dense st'" using d fr by (simp add: ids_dense_def)
  moreover have "index_onto st'" using o fr by (simp add: index_onto_def)
  moreover have "index_sound st'"
    unfolding index_sound_def
  proof (intro allI impI)
    fix nm p
    assume "extension_index st' nm = Some p"
    then have k: "extension_index st nm = Some p" using fr by simp
    from index_soundD [OF s k]
    have b: "fst p = array_buffer st" and lt: "snd p < length (extensions st)"
      and nm: "\<forall>e. extension (extensions st ! snd p) = Some e \<longrightarrow> name e = nm"
      by simp_all
    have "\<forall>e. extension (extensions st' ! snd p) = Some e \<longrightarrow> name e = nm"
    proof (intro allI impI)
      fix e assume e: "extension (extensions st' ! snd p) = Some e"
      show "name e = nm"
      proof (cases "snd p = ereg \<and> extension (extensions st ! ereg) = None \<and> r \<noteq> None")
        case True
        with e enable_registered_extension [OF en lt] have "e = ext" by simp
        moreover from True b have "p = (array_buffer st, ereg)" by (cases p) simp
        with k idx o have "nm = name ext"
          by (blast dest: index_ontoD)
        ultimately show ?thesis by simp
      next
        case False
        with e enable_registered_extension [OF en lt] nm show ?thesis by auto
      qed
    qed
    with b lt fr show "fst p = array_buffer st' \<and> snd p < length (extensions st') \<and>
        (\<forall>e. extension (extensions st' ! snd p) = Some e \<longrightarrow> name e = nm)" by simp
  qed
  ultimately show ?thesis by (simp add: registry_wf_def)
qed

lemma register_impl_unfold:
  assumes "registry_wf st" "stays_in_place st ext" "register_if_new st ext = (ereg, st1)"
  shows "sieve_extension_register_impl st ext ld = Inr (enable_registered st1 (snd ereg) ext ld)"
  using register_if_new_wf [OF assms]
  by (simp add: sieve_extension_register_impl_def assms(3) ereg_at_def)

lemma register_impl_steps:
  assumes "sieve_extension_register_impl st ext ld = Inr (r, st')"
  obtains ereg st1 where "register_if_new st ext = (ereg, st1)"
    and "fst ereg = array_buffer st1" and "snd ereg < length (extensions st1)"
    and "enable_registered st1 (snd ereg) ext ld = (r, st')"
proof -
  obtain ereg st1 where rin: "register_if_new st ext = (ereg, st1)"
    by (cases "register_if_new st ext")
  with assms have "fst ereg = array_buffer st1 \<and> snd ereg < length (extensions st1) \<and>
      enable_registered st1 (snd ereg) ext ld = (r, st')"
    by (auto simp: sieve_extension_register_impl_def ereg_at_def split: if_splits)
  with rin that show thesis by blast
qed

lemma register_impl_wf:
  assumes "registry_wf st" "stays_in_place st ext"
    and "sieve_extension_register_impl st ext ld = Inr (r, st')"
  shows "registry_wf st'" and "array_buffer st' = array_buffer st"
proof -
  from assms(3) obtain ereg st1 where rin: "register_if_new st ext = (ereg, st1)"
    and en: "enable_registered st1 (snd ereg) ext ld = (r, st')"
    by (rule register_impl_steps)
  from register_if_new_wf [OF assms(1,2) rin]
  have wf1: "registry_wf st1" and ix: "extension_index st1 (name ext) = Some ereg"
    and b: "fst ereg = array_buffer st1" and b1: "array_buffer st1 = array_buffer st"
    by simp_all
  from ix b have "extension_index st1 (name ext) = Some (array_buffer st1, snd ereg)"
    by (cases ereg) simp
  from enable_registered_wf [OF wf1 this en] show "registry_wf st'" .
  from enable_registered_frame(6) [OF en] b1 show "array_buffer st' = array_buffer st" by simp
qed

lemma register_impl_length:
  assumes "sieve_extension_register_impl st ext ld = Inr (r, st')"
  shows "length (extensions st') =
           (case extension_index st (name ext) of
              None \<Rightarrow> Suc (length (extensions st)) | Some k \<Rightarrow> length (extensions st))"
    and "extension_index st' =
           (case extension_index st (name ext) of
              None \<Rightarrow> (extension_index st)(name ext \<mapsto> (array_buffer st', length (extensions st)))
            | Some k \<Rightarrow> extension_index st)"
proof -
  from assms obtain ereg st1 where rin: "register_if_new st ext = (ereg, st1)"
    and en: "enable_registered st1 (snd ereg) ext ld = (r, st')"
    by (rule register_impl_steps)
  note fr = enable_registered_frame [OF en]
  show "length (extensions st') =
           (case extension_index st (name ext) of
              None \<Rightarrow> Suc (length (extensions st)) | Some k \<Rightarrow> length (extensions st))"
    using rin fr(1) by (auto simp: register_if_new_def Let_def split: option.splits)
  show "extension_index st' =
           (case extension_index st (name ext) of
              None \<Rightarrow> (extension_index st)(name ext \<mapsto> (array_buffer st', length (extensions st)))
            | Some k \<Rightarrow> extension_index st)"
    using rin fr(2,6) by (auto simp: register_if_new_def Let_def split: option.splits)
qed

lemma register_impl_result:
  assumes wf: "registry_wf st" and sp: "stays_in_place st ext"
    and reg: "sieve_extension_register_impl st ext ld = Inr (r, st')"
  shows "r = Some k \<Longrightarrow> extension_index st' (name ext) = Some (array_buffer st', k)"
    and "r = None \<longleftrightarrow>
           load_fails (snd (register_if_new st ext)) (snd (fst (register_if_new st ext))) ext ld"
proof -
  from reg obtain ereg st1 where rin: "register_if_new st ext = (ereg, st1)"
    and en: "enable_registered st1 (snd ereg) ext ld = (r, st')"
    by (rule register_impl_steps)
  note fr = enable_registered_frame [OF en]
  from register_if_new_wf [OF wf sp rin]
  have "extension_index st1 (name ext) = Some ereg" "fst ereg = array_buffer st1" by simp_all
  then have "extension_index st1 (name ext) = Some (array_buffer st1, snd ereg)"
    by (cases ereg) simp
  with fr show "r = Some k \<Longrightarrow> extension_index st' (name ext) = Some (array_buffer st', k)"
    by (auto split: if_splits)
  from fr(5) rin show "r = None \<longleftrightarrow>
      load_fails (snd (register_if_new st ext)) (snd (fst (register_if_new st ext))) ext ld"
    by auto
qed

lemma register_cases:
  assumes "sieve_extension_register st ext ld = Inr (i, st')"
  obtains r where "sieve_extension_register_impl st ext ld = Inr (r, st')"
    and "i = (case r of None \<Rightarrow> - 1 | Some k \<Rightarrow> ext_id (extensions st' ! k))"
  using assms
  by (auto simp: sieve_extension_register_def split: sum.splits prod.splits option.splits)

lemma register_returns:
  assumes "registry_wf st" "stays_in_place st ext"
  shows "\<exists>i st'. sieve_extension_register st ext ld = Inr (i, st')"
proof -
  obtain ereg st1 where rin: "register_if_new st ext = (ereg, st1)"
    by (cases "register_if_new st ext")
  from register_impl_unfold [OF assms rin, of ld] show ?thesis
    by (cases "enable_registered st1 (snd ereg) ext ld")
       (auto simp: sieve_extension_register_def split: option.splits)
qed

lemma register_wf:
  assumes "registry_wf st" "stays_in_place st ext"
    and "sieve_extension_register st ext ld = Inr (i, st')"
  shows "registry_wf st'" and "array_buffer st' = array_buffer st"
proof -
  from assms(3) obtain r where impl: "sieve_extension_register_impl st ext ld = Inr (r, st')"
    by (rule register_cases)
  from register_impl_wf [OF assms(1,2) impl]
  show "registry_wf st'" and "array_buffer st' = array_buffer st" .
qed

lemma register_length:
  assumes "sieve_extension_register st ext ld = Inr (i, st')"
  shows "length (extensions st') =
     (case extension_index st (name ext) of
        None \<Rightarrow> Suc (length (extensions st)) | Some k \<Rightarrow> length (extensions st))"
proof -
  from assms obtain r where impl: "sieve_extension_register_impl st ext ld = Inr (r, st')"
    by (rule register_cases)
  from register_impl_length(1) [OF impl] show ?thesis .
qed

lemma register_index:
  assumes "sieve_extension_register st ext ld = Inr (i, st')"
  shows "extension_index st' =
     (case extension_index st (name ext) of
        None \<Rightarrow> (extension_index st)(name ext \<mapsto> (array_buffer st', length (extensions st)))
      | Some k \<Rightarrow> extension_index st)"
proof -
  from assms obtain r where impl: "sieve_extension_register_impl st ext ld = Inr (r, st')"
    by (rule register_cases)
  from register_impl_length(2) [OF impl] show ?thesis .
qed

lemma load_fails_register_if_new:
  "load_fails (snd (register_if_new st ext)) (snd (fst (register_if_new st ext))) ext ld \<longleftrightarrow>
   load_pending st ext \<and> id_ptr ext \<noteq> None \<and> ld \<and> load ext = Some False"
  by (auto simp: register_if_new_def load_fails_def load_pending_def Let_def split: option.splits)

lemma register_index_stable:
  "sieve_extension_register st ext ld = Inr (i, st') \<Longrightarrow> extension_index st nm = Some p \<Longrightarrow>
     extension_index st' nm = Some p"
  by (auto simp: register_index split: option.splits)

lemma stays_in_place_room: "length (extensions st) < 30 \<Longrightarrow> stays_in_place st ext"
  by (simp add: stays_in_place_def)

lemma register_each_stable:
  "registry_wf st \<Longrightarrow> length (extensions st) + length es \<le> 30 \<Longrightarrow>
     \<exists>st'. register_each st es = Inr st' \<and> registry_wf st' \<and>
       array_buffer st' = array_buffer st \<and>
       length (extensions st') \<le> length (extensions st) + length es \<and>
       (\<forall>nm p. extension_index st nm = Some p \<longrightarrow> extension_index st' nm = Some p)"
proof (induction es arbitrary: st)
  case Nil
  then show ?case by simp
next
  case (Cons e es)
  from Cons.prems have sp: "stays_in_place st e" by (simp add: stays_in_place_room)
  from register_returns [OF Cons.prems(1) sp, of True] obtain i st1
    where reg: "sieve_extension_register st e True = Inr (i, st1)" by blast
  from register_wf [OF Cons.prems(1) sp reg]
  have wf1: "registry_wf st1" and b1: "array_buffer st1 = array_buffer st" .
  have l1: "length (extensions st1) \<le> Suc (length (extensions st))"
    using register_length [OF reg] by (simp split: option.splits)
  with Cons.prems have "length (extensions st1) + length es \<le> 30" by simp
  from Cons.IH [OF wf1 this] obtain st' where
    each: "register_each st1 es = Inr st'" and wf': "registry_wf st'"
    and b': "array_buffer st' = array_buffer st1"
    and l': "length (extensions st') \<le> length (extensions st1) + length es"
    and ix: "\<And>nm p. extension_index st1 nm = Some p \<Longrightarrow> extension_index st' nm = Some p"
    by blast
  have "register_each st (e # es) = Inr st'" by (simp add: reg each)
  moreover have "\<forall>nm p. extension_index st nm = Some p \<longrightarrow> extension_index st' nm = Some p"
    using ix register_index_stable [OF reg] by blast
  ultimately show ?case using wf' b' b1 l' l1 by auto
qed

lemma preloaded_first:
  assumes "distinct (map name (sieve_preloaded_extensions ext))"
  shows "\<exists>s. sieve_extensions_init ext st0 = Inr (True, s) \<and> registry_wf s \<and>
           array_buffer s = array_buffer st0 \<and>
           extension_index s (name (ext ''comparator_extension'')) = Some (array_buffer s, 0) \<and>
           extension_index s (name (ext ''match_type_extension'')) = Some (array_buffer s, 1) \<and>
           extension_index s (name (ext ''address_part_extension'')) = Some (array_buffer s, 2)"
proof -
  let ?e1 = "ext ''comparator_extension''" and ?e2 = "ext ''match_type_extension''"
    and ?e3 = "ext ''address_part_extension''"
  let ?s0 = "sieve_extensions_init_registry st0"
  let ?b = "array_buffer st0"
  from assms have ne: "name ?e1 \<noteq> name ?e2" "name ?e1 \<noteq> name ?e3" "name ?e2 \<noteq> name ?e3"
    by (simp_all add: sieve_preloaded_extensions_def)
  have wf0: "registry_wf ?s0" by (rule registry_wf_init)
  have i0: "extension_index ?s0 = Map.empty" and l0: "length (extensions ?s0) = 0"
    and b0: "array_buffer ?s0 = ?b"
    by (simp_all add: sieve_extensions_init_registry_def)
  have sp0: "stays_in_place ?s0 ?e1" using l0 by (simp add: stays_in_place_room)
  from register_returns [OF wf0 sp0, of True] obtain n1 s1
    where r1: "sieve_extension_register ?s0 ?e1 True = Inr (n1, s1)" by blast
  from register_wf [OF wf0 sp0 r1] b0 have wf1: "registry_wf s1" and b1: "array_buffer s1 = ?b"
    by simp_all
  have i1: "extension_index s1 = [name ?e1 \<mapsto> (?b, 0)]" and l1: "length (extensions s1) = 1"
    using register_index [OF r1] register_length [OF r1] by (simp_all add: i0 l0 b1)
  have sp1: "stays_in_place s1 ?e2" using l1 by (simp add: stays_in_place_room)
  from register_returns [OF wf1 sp1, of True] obtain n2 s2
    where r2: "sieve_extension_register s1 ?e2 True = Inr (n2, s2)" by blast
  from register_wf [OF wf1 sp1 r2] b1 have wf2: "registry_wf s2" and b2: "array_buffer s2 = ?b"
    by simp_all
  have i2: "extension_index s2 = [name ?e1 \<mapsto> (?b, 0), name ?e2 \<mapsto> (?b, 1)]"
    and l2: "length (extensions s2) = 2"
    using register_index [OF r2] register_length [OF r2] ne by (simp_all add: i1 l1 b2)
  have sp2: "stays_in_place s2 ?e3" using l2 by (simp add: stays_in_place_room)
  from register_returns [OF wf2 sp2, of True] obtain n3 s3
    where r3: "sieve_extension_register s2 ?e3 True = Inr (n3, s3)" by blast
  from register_wf [OF wf2 sp2 r3] b2 have wf3: "registry_wf s3" and b3: "array_buffer s3 = ?b"
    by simp_all
  have i3: "extension_index s3 =
      [name ?e1 \<mapsto> (?b, 0), name ?e2 \<mapsto> (?b, 1), name ?e3 \<mapsto> (?b, 2)]"
    and l3: "length (extensions s3) = 3"
    using register_index [OF r3] register_length [OF r3] ne by (simp_all add: i2 l2 b3)
  obtain rest where core: "sieve_core_extensions ext = ?e1 # ?e2 # ?e3 # rest"
    and lrest: "length rest = 17"
    by (simp add: sieve_core_extensions_def)
  have c3: "register_each ?s0 (sieve_core_extensions ext) = register_each s3 rest"
    by (simp add: core r1 r2 r3)
  have "length (extensions s3) + length rest \<le> 30" by (simp add: l3 lrest)
  from register_each_stable [OF wf3 this] obtain s4 where
    e4: "register_each s3 rest = Inr s4" and wf4: "registry_wf s4"
    and b4: "array_buffer s4 = array_buffer s3"
    and l4: "length (extensions s4) \<le> length (extensions s3) + length rest"
    and st4: "\<And>nm p. extension_index s3 nm = Some p \<Longrightarrow> extension_index s4 nm = Some p"
    by blast
  have "length (extensions s4) + length (sieve_depricated_extensions ext) \<le> 30"
    using l4 by (simp add: l3 lrest sieve_depricated_extensions_def)
  from register_each_stable [OF wf4 this] obtain s5 where
    e5: "register_each s4 (sieve_depricated_extensions ext) = Inr s5" and wf5: "registry_wf s5"
    and b5: "array_buffer s5 = array_buffer s4"
    and st5: "\<And>nm p. extension_index s4 nm = Some p \<Longrightarrow> extension_index s5 nm = Some p"
    by blast
  have fin: "sieve_extensions_init ext st0 = Inr (True, s5)"
    by (simp add: sieve_extensions_init_def c3 e4 e5)
  have bs: "array_buffer s5 = ?b" using b5 b4 b3 by simp
  have "extension_index s5 (name ?e1) = Some (?b, 0)" "extension_index s5 (name ?e2) = Some (?b, 1)"
    "extension_index s5 (name ?e3) = Some (?b, 2)"
    using ne by (auto intro!: st5 st4 simp: i3)
  with fin wf5 bs show ?thesis by simp
qed

lemma registry_wf_empty: "registry_wf empty_registry"
  by (simp add: registry_wf_def ids_dense_def index_sound_def index_onto_def empty_registry_def)

lemmas reg_defs = sieve_extension_register_def sieve_extension_register_impl_def register_if_new_def
      enable_registered_def sieve_extension_load_def sieve_extension_require_def ereg_at_def Let_def

lemma regex_registry_eq:
  "regex_registry =
     \<lparr>extensions = [\<lparr>extension = None, ext_id = 0, required = False, loaded = False\<rparr>],
      array_buffer = 0, array_grow = (\<lambda>n b. Suc b),
      extension_index = [''regex'' \<mapsto> (0, 0)], id_store = (\<lambda>a. - 1)(1 := 0),
      sys_log = [''failed to load '' @ CHR 0x27 # ''regex'' @ CHR 0x27 # '' extension support.'']\<rparr>"
  and regex_registry_call:
  "sieve_extension_register empty_registry regex_ext True = Inr (- 1, regex_registry)"
proof -
  have call: "sieve_extension_register empty_registry regex_ext True =
     Inr (- 1, \<lparr>extensions = [\<lparr>extension = None, ext_id = 0, required = False, loaded = False\<rparr>],
      array_buffer = 0, array_grow = (\<lambda>n b. Suc b),
      extension_index = [''regex'' \<mapsto> (0, 0)], id_store = (\<lambda>a. - 1)(1 := 0),
      sys_log = [''failed to load '' @ CHR 0x27 # ''regex'' @ CHR 0x27 # '' extension support.'']\<rparr>)"
    by (simp add: reg_defs empty_registry_def regex_ext_def)
  then show "regex_registry =
     \<lparr>extensions = [\<lparr>extension = None, ext_id = 0, required = False, loaded = False\<rparr>],
      array_buffer = 0, array_grow = (\<lambda>n b. Suc b),
      extension_index = [''regex'' \<mapsto> (0, 0)], id_store = (\<lambda>a. - 1)(1 := 0),
      sys_log = [''failed to load '' @ CHR 0x27 # ''regex'' @ CHR 0x27 # '' extension support.'']\<rparr>"
    by (simp add: regex_registry_def registered_def)
  with call show "sieve_extension_register empty_registry regex_ext True = Inr (- 1, regex_registry)"
    by simp
qed

text \<open>
  C6, as the claim states it, fails when a load hook fails: the first registration of such
  an extension puts its name in the index with id 0 and returns -1, and registering it
  again returns -1 as well, not the existing id.
\<close>

theorem sieve_extension_register_load_failure_counterexample:
  "sieve_extension_register empty_registry regex_ext True = Inr (- 1, regex_registry) \<and>
   extension_index regex_registry (name regex_ext) = Some (0, 0) \<and>
   ext_id (extensions regex_registry ! 0) = 0 \<and>
   returned (sieve_extension_register regex_registry regex_ext True) = Some (- 1)"
  by (simp add: regex_registry_call) (simp add: regex_registry_eq returned_def reg_defs regex_ext_def)

text \<open>
  C6, amended. Take a well-formed registry and a registration that leaves the array where
  it is: the name is registered already, or the array holds fewer than the 30 elements
  it was created for. The call returns and the registry is well-formed again, in the
  same allocation: the ids are the positions 0, 1, 2, ... of the registrations. The
  call keeps every index entry and every id. A new name gets the next position; a name
  that is registered already gets no new registration, and the call returns its existing
  id, or -1 when the load hook of the extension fails (which can happen only while the
  registration has no extension yet). The empty registry that
  \<^verbatim>\<open>sieve_extensions_init_registry\<close> makes is well-formed, and so is the registry after
  any 30 registrations or fewer in it. After \<^verbatim>\<open>sieve_extensions_init\<close> the three
  preloaded extensions, if their names differ, are at the positions 0, 1 and 2, with
  these ids.
\<close>

theorem sieve_extension_register_ids:
  assumes wf: "registry_wf st" and sp: "stays_in_place st ext"
  shows "\<exists>i st'. sieve_extension_register st ext ld = Inr (i, st') \<and>
         registry_wf st' \<and> array_buffer st' = array_buffer st \<and>
         map ext_id (extensions st') = map int [0..<length (extensions st')] \<and>
         (\<forall>nm p. extension_index st nm = Some p \<longrightarrow>
            extension_index st' nm = Some p \<and>
            ext_id (extensions st' ! snd p) = ext_id (extensions st ! snd p)) \<and>
         (extension_index st (name ext) = None \<longrightarrow>
            length (extensions st') = Suc (length (extensions st)) \<and>
            extension_index st' (name ext) = Some (array_buffer st, length (extensions st))) \<and>
         (\<forall>p. extension_index st (name ext) = Some p \<longrightarrow>
            length (extensions st') = length (extensions st) \<and> (i = int (snd p) \<or> i = - 1)) \<and>
         (i = - 1 \<longleftrightarrow> load_pending st ext \<and> id_ptr ext \<noteq> None \<and> ld \<and> load ext = Some False) \<and>
         (i \<noteq> - 1 \<longrightarrow> 0 \<le> i \<and> extension_index st' (name ext) = Some (array_buffer st, nat i)) \<and>
         registry_wf (sieve_extensions_init_registry st0) \<and>
         (length es \<le> 30 \<longrightarrow>
            (\<exists>s. register_each (sieve_extensions_init_registry st0) es = Inr s \<and> registry_wf s \<and>
               map ext_id (extensions s) = map int [0..<length (extensions s)])) \<and>
         (distinct (map name (sieve_preloaded_extensions env)) \<longrightarrow>
            (\<exists>s. sieve_extensions_init env st0 = Inr (True, s) \<and>
               array_buffer s = array_buffer st0 \<and>
               map (extension_index s) (map name (sieve_preloaded_extensions env)) =
                 [Some (array_buffer s, 0), Some (array_buffer s, 1), Some (array_buffer s, 2)] \<and>
               map ext_id (take 3 (extensions s)) = [0, 1, 2]))"
proof -
  from register_returns [OF wf sp, of ld] obtain i st'
    where reg: "sieve_extension_register st ext ld = Inr (i, st')" by blast
  from reg obtain r where impl: "sieve_extension_register_impl st ext ld = Inr (r, st')"
    and i: "i = (case r of None \<Rightarrow> - 1 | Some k \<Rightarrow> ext_id (extensions st' ! k))"
    by (rule register_cases)
  from register_wf [OF wf sp reg] have wf': "registry_wf st'"
    and b': "array_buffer st' = array_buffer st" .
  then have dense: "ids_dense st'" and sound: "index_sound st'" by (simp_all add: registry_wf_def)
  from wf have dense0: "ids_dense st" and sound0: "index_sound st" by (simp_all add: registry_wf_def)
  have iSome: "i = int k \<and> extension_index st' (name ext) = Some (array_buffer st, k)"
    if "r = Some k" for k
  proof -
    from register_impl_result(1) [OF wf sp impl that] b'
    have k: "extension_index st' (name ext) = Some (array_buffer st, k)" by simp
    from index_soundD [OF sound k] have "k < length (extensions st')" by simp
    from ids_dense_nth [OF dense this] i that k show ?thesis by simp
  qed
  have iNone: "i = - 1 \<longleftrightarrow> r = None"
    using i iSome by (cases r) auto
  have A: "map ext_id (extensions st') = map int [0..<length (extensions st')]"
    using dense by (simp add: ids_dense_def)
  have B: "\<forall>nm p. extension_index st nm = Some p \<longrightarrow>
            extension_index st' nm = Some p \<and>
            ext_id (extensions st' ! snd p) = ext_id (extensions st ! snd p)"
  proof (intro allI impI)
    fix nm p assume k: "extension_index st nm = Some p"
    have k': "extension_index st' nm = Some p"
      using reg k by (rule register_index_stable)
    from index_soundD [OF sound0 k] have "snd p < length (extensions st)" by simp
    from ids_dense_nth [OF dense0 this] have "ext_id (extensions st ! snd p) = int (snd p)" .
    moreover from index_soundD [OF sound k'] have "snd p < length (extensions st')" by simp
    from ids_dense_nth [OF dense this] have "ext_id (extensions st' ! snd p) = int (snd p)" .
    ultimately show "extension_index st' nm = Some p \<and>
        ext_id (extensions st' ! snd p) = ext_id (extensions st ! snd p)"
      using k' by simp
  qed
  have C: "extension_index st (name ext) = None \<longrightarrow>
            length (extensions st') = Suc (length (extensions st)) \<and>
            extension_index st' (name ext) = Some (array_buffer st, length (extensions st))"
    using register_length [OF reg] register_index [OF reg] b' by simp
  have D: "\<forall>p. extension_index st (name ext) = Some p \<longrightarrow>
            length (extensions st') = length (extensions st) \<and> (i = int (snd p) \<or> i = - 1)"
  proof (intro allI impI)
    fix p assume k: "extension_index st (name ext) = Some p"
    then have "extension_index st' (name ext) = Some p" using B by blast
    with iSome iNone have "i = int (snd p) \<or> i = - 1" by (cases r) auto
    moreover have "length (extensions st') = length (extensions st)"
      using register_length [OF reg] k by simp
    ultimately show "length (extensions st') = length (extensions st) \<and>
        (i = int (snd p) \<or> i = - 1)"
      by simp
  qed
  have E: "i = - 1 \<longleftrightarrow> load_pending st ext \<and> id_ptr ext \<noteq> None \<and> ld \<and> load ext = Some False"
    using iNone register_impl_result(2) [OF wf sp impl] load_fails_register_if_new [of st ext ld]
    by simp
  have F: "i \<noteq> - 1 \<longrightarrow> 0 \<le> i \<and> extension_index st' (name ext) = Some (array_buffer st, nat i)"
    using iNone iSome by (cases r) auto
  have G: "distinct (map name (sieve_preloaded_extensions env)) \<longrightarrow>
            (\<exists>s. sieve_extensions_init env st0 = Inr (True, s) \<and>
               array_buffer s = array_buffer st0 \<and>
               map (extension_index s) (map name (sieve_preloaded_extensions env)) =
                 [Some (array_buffer s, 0), Some (array_buffer s, 1), Some (array_buffer s, 2)] \<and>
               map ext_id (take 3 (extensions s)) = [0, 1, 2])"
  proof
    assume dn: "distinct (map name (sieve_preloaded_extensions env))"
    from preloaded_first [OF dn, of st0] obtain s
      where init: "sieve_extensions_init env st0 = Inr (True, s)"
      and wfs: "registry_wf s" and bs: "array_buffer s = array_buffer st0"
      and ix: "extension_index s (name (env ''comparator_extension'')) = Some (array_buffer s, 0)"
        "extension_index s (name (env ''match_type_extension'')) = Some (array_buffer s, 1)"
        "extension_index s (name (env ''address_part_extension'')) = Some (array_buffer s, 2)"
      by blast
    from wfs have d: "ids_dense s" and s: "index_sound s" by (simp_all add: registry_wf_def)
    from index_soundD [OF s ix(3)] have len: "2 < length (extensions s)" by simp
    have "map ext_id (take 3 (extensions s)) = map int [0..<3]"
    proof (rule nth_equalityI)
      show "length (map ext_id (take 3 (extensions s))) = length (map int [0..<3])"
        using len by simp
      fix i assume "i < length (map ext_id (take 3 (extensions s)))"
      then have "i < 3" and "i < length (extensions s)" by simp_all
      with ids_dense_nth [OF d, of i]
      show "map ext_id (take 3 (extensions s)) ! i = map int [0..<3] ! i" by simp
    qed
    also have "[0..<3] = [0, 1, 2]" by code_simp
    finally have "map ext_id (take 3 (extensions s)) = [0, 1, 2]" by simp
    with ix init bs show "\<exists>s. sieve_extensions_init env st0 = Inr (True, s) \<and>
               array_buffer s = array_buffer st0 \<and>
               map (extension_index s) (map name (sieve_preloaded_extensions env)) =
                 [Some (array_buffer s, 0), Some (array_buffer s, 1), Some (array_buffer s, 2)] \<and>
               map ext_id (take 3 (extensions s)) = [0, 1, 2]"
      by (simp add: sieve_preloaded_extensions_def)
  qed
  note H = registry_wf_init [of st0]
  have I: "length es \<le> 30 \<longrightarrow>
            (\<exists>s. register_each (sieve_extensions_init_registry st0) es = Inr s \<and> registry_wf s \<and>
               map ext_id (extensions s) = map int [0..<length (extensions s)])"
  proof
    assume "length es \<le> 30"
    then have "length (extensions (sieve_extensions_init_registry st0)) + length es \<le> 30"
      by (simp add: sieve_extensions_init_registry_def)
    from register_each_stable [OF H this] obtain s
      where "register_each (sieve_extensions_init_registry st0) es = Inr s" "registry_wf s"
      by blast
    then show "\<exists>s. register_each (sieve_extensions_init_registry st0) es = Inr s \<and> registry_wf s \<and>
               map ext_id (extensions s) = map int [0..<length (extensions s)]"
      by (auto simp: registry_wf_def ids_dense_def)
  qed
  show ?thesis
    by (rule exI [of _ i], rule exI [of _ st'], intro conjI) (fact reg wf' b' A B C D E F G H I)+
qed

lemma ext_fields:
  "name fileinto_ext = ''fileinto''" "id_ptr fileinto_ext = Some 0" "load fileinto_ext = None"
  "name hidden_ext = ''@comparators''" "id_ptr hidden_ext = Some 2" "load hidden_ext = Some True"
  "name envelope_ext = ''envelope''" "id_ptr envelope_ext = Some 4" "load envelope_ext = Some True"
  "name vacation_ext = ''vacation''" "id_ptr vacation_ext = Some 3" "load vacation_ext = None"
  "name regex_ext = ''regex''" "id_ptr regex_ext = Some 1" "load regex_ext = Some False"
  by (simp_all add: fileinto_ext_def hidden_ext_def envelope_ext_def vacation_ext_def regex_ext_def)

lemma fileinto_registry_eq:
  "fileinto_registry =
     \<lparr>extensions = [\<lparr>extension = Some fileinto_ext, ext_id = 0, required = False, loaded = True\<rparr>],
      array_buffer = 0, array_grow = (\<lambda>n b. Suc b),
      extension_index = [''fileinto'' \<mapsto> (0, 0)], id_store = (\<lambda>a. - 1)(0 := 0), sys_log = []\<rparr>"
  and fileinto_registry_call:
  "sieve_extension_register empty_registry fileinto_ext True = Inr (0, fileinto_registry)"
proof -
  have call: "sieve_extension_register empty_registry fileinto_ext True =
     Inr (0, \<lparr>extensions = [\<lparr>extension = Some fileinto_ext, ext_id = 0, required = False, loaded = True\<rparr>],
      array_buffer = 0, array_grow = (\<lambda>n b. Suc b),
      extension_index = [''fileinto'' \<mapsto> (0, 0)], id_store = (\<lambda>a. - 1)(0 := 0), sys_log = []\<rparr>)"
    by (simp add: reg_defs empty_registry_def ext_fields)
  then show "fileinto_registry =
     \<lparr>extensions = [\<lparr>extension = Some fileinto_ext, ext_id = 0, required = False, loaded = True\<rparr>],
      array_buffer = 0, array_grow = (\<lambda>n b. Suc b),
      extension_index = [''fileinto'' \<mapsto> (0, 0)], id_store = (\<lambda>a. - 1)(0 := 0), sys_log = []\<rparr>"
    by (simp add: fileinto_registry_def registered_def)
  with call show "sieve_extension_register empty_registry fileinto_ext True = Inr (0, fileinto_registry)"
    by simp
qed

lemma fileinto_registry_wf: "registry_wf fileinto_registry"
  using register_wf(1) [OF registry_wf_empty _ fileinto_registry_call]
  by (simp add: stays_in_place_def empty_registry_def)

text \<open>
  The amended C6 at the registration of two extensions after fileinto, and at the
  start-up of the example environment.
\<close>

theorem sieve_extension_register_ids_witness:
  "returned (sieve_extension_register fileinto_registry fileinto_ext True) = Some 0 \<and>
   returned (sieve_extension_register fileinto_registry regex_ext True) = Some (- 1) \<and>
   length (extensions failed_load_registry) = 2 \<and>
   map (extension_index (initialised example_env empty_registry))
     (map name (sieve_preloaded_extensions example_env)) = [Some (0, 0), Some (0, 1), Some (0, 2)]"
proof -
  let ?st = fileinto_registry
  have d: "distinct (map name (sieve_preloaded_extensions example_env))"
    by (simp add: sieve_preloaded_extensions_def example_env_def)
  have pend: "\<not> load_pending ?st fileinto_ext" "load_pending ?st regex_ext"
    by (simp_all add: fileinto_registry_eq load_pending_def ext_fields)
  have ix: "extension_index ?st (name fileinto_ext) = Some (0, 0)"
    "extension_index ?st (name regex_ext) = None"
    by (simp_all add: fileinto_registry_eq ext_fields)
  have sp: "stays_in_place ?st fileinto_ext" "stays_in_place ?st regex_ext"
    by (simp_all add: stays_in_place_def fileinto_registry_eq)
  note fi = sieve_extension_register_ids [OF fileinto_registry_wf sp(1), where ld = True
      and ?st0.0 = empty_registry and env = example_env and es = "[]"]
  note re = sieve_extension_register_ids [OF fileinto_registry_wf sp(2), where ld = True
      and ?st0.0 = empty_registry and env = example_env and es = "[]"]
  from fi obtain i st' where a: "sieve_extension_register ?st fileinto_ext True = Inr (i, st')"
    and a1: "\<forall>p. extension_index ?st (name fileinto_ext) = Some p \<longrightarrow>
            length (extensions st') = length (extensions ?st) \<and> (i = int (snd p) \<or> i = - 1)"
    and a2: "i = - 1 \<longleftrightarrow> load_pending ?st fileinto_ext \<and> id_ptr fileinto_ext \<noteq> None \<and> True \<and>
            load fileinto_ext = Some False"
    and a3: "distinct (map name (sieve_preloaded_extensions example_env)) \<longrightarrow>
            (\<exists>s. sieve_extensions_init example_env empty_registry = Inr (True, s) \<and>
               array_buffer s = array_buffer empty_registry \<and>
               map (extension_index s) (map name (sieve_preloaded_extensions example_env)) =
                 [Some (array_buffer s, 0), Some (array_buffer s, 1), Some (array_buffer s, 2)] \<and>
               map ext_id (take 3 (extensions s)) = [0, 1, 2])"
    by (elim exE conjE) (rule that; assumption)
  from a1 a2 pend ix have "i = 0" by auto
  with a have 1: "returned (sieve_extension_register ?st fileinto_ext True) = Some 0"
    by (simp add: returned_def)
  from re obtain j st'' where b: "sieve_extension_register ?st regex_ext True = Inr (j, st'')"
    and b1: "extension_index ?st (name regex_ext) = None \<longrightarrow>
            length (extensions st'') = Suc (length (extensions ?st)) \<and>
            extension_index st'' (name regex_ext) = Some (array_buffer ?st, length (extensions ?st))"
    and b2: "j = - 1 \<longleftrightarrow> load_pending ?st regex_ext \<and> id_ptr regex_ext \<noteq> None \<and> True \<and>
            load regex_ext = Some False"
    by (elim exE conjE) (rule that; assumption)
  from b2 pend have "j = - 1" by (simp add: ext_fields)
  with b have 2: "returned (sieve_extension_register ?st regex_ext True) = Some (- 1)"
    by (simp add: returned_def)
  from b b1 ix have 3: "length (extensions failed_load_registry) = 2"
    by (simp add: failed_load_registry_def registered_def fileinto_registry_eq)
  from a3 [THEN mp, OF d] obtain s where s: "sieve_extensions_init example_env empty_registry = Inr (True, s)"
    "array_buffer s = array_buffer empty_registry"
    "map (extension_index s) (map name (sieve_preloaded_extensions example_env)) =
                 [Some (array_buffer s, 0), Some (array_buffer s, 1), Some (array_buffer s, 2)]"
    by (elim exE conjE) (rule that; assumption)
  then have 4: "map (extension_index (initialised example_env empty_registry))
     (map name (sieve_preloaded_extensions example_env)) = [Some (0, 0), Some (0, 1), Some (0, 2)]"
    by (simp add: initialised_def empty_registry_def)
  from 1 2 3 4 show ?thesis by blast
qed

subsection \<open>The capability string\<close>

lemma join_spaces_head: "join_spaces ((a @ b) # ns) = a @ join_spaces (b # ns)"
  by (cases ns) simp_all

lemma list_extension_Some:
  "extension r = Some e \<Longrightarrow> list_extension st r = Inr (reg_listed st r)"
  by (simp add: list_extension_def reg_listed_def)

lemma list_extension_None:
  "extension r = None \<Longrightarrow> list_extension st r = Inl Null_dereference"
  by (simp add: list_extension_def)

lemma reg_name_Some: "extension r = Some e \<Longrightarrow> reg_name r = name e"
  by (simp add: reg_name_def)

lemma add_others_join:
  assumes "\<forall>r\<in>set eregs. extension r \<noteq> None"
  shows "add_others st eregs extstr =
           Inr (join_spaces (extstr # map reg_name (filter (reg_listed st) eregs)))"
  using assms
proof (induction eregs arbitrary: extstr)
  case Nil
  then show ?case by simp
next
  case (Cons r eregs)
  then obtain e where e: "extension r = Some e" by auto
  from Cons have IH: "\<And>x. add_others st eregs x =
      Inr (join_spaces (x # map reg_name (filter (reg_listed st) eregs)))" by simp
  show ?case
  proof (cases "reg_listed st r")
    case True
    with e have "add_others st (r # eregs) extstr = add_others st eregs (extstr @ '' '' @ name e)"
      by (simp add: list_extension_Some)
    also have "\<dots> = Inr (join_spaces ((extstr @ '' '' @ name e) #
        map reg_name (filter (reg_listed st) eregs)))" by (rule IH)
    also have "join_spaces ((extstr @ '' '' @ name e) # map reg_name (filter (reg_listed st) eregs)) =
        extstr @ join_spaces (('' '' @ name e) # map reg_name (filter (reg_listed st) eregs))"
      by (rule join_spaces_head)
    also have "join_spaces (('' '' @ name e) # map reg_name (filter (reg_listed st) eregs)) =
        '' '' @ join_spaces (name e # map reg_name (filter (reg_listed st) eregs))"
      by (rule join_spaces_head)
    finally show ?thesis using True by (simp add: reg_name_Some [OF e])
  next
    case False
    with e show ?thesis by (simp add: list_extension_Some IH)
  qed
qed

lemma first_listed_dropWhile:
  assumes "\<forall>r\<in>set eregs. extension r \<noteq> None"
  shows "first_listed st eregs = Inr (dropWhile (\<lambda>r. \<not> reg_listed st r) eregs)"
  using assms
  by (induction eregs) (auto simp: list_extension_Some)

lemma filter_dropWhile_not: "filter P (dropWhile (\<lambda>x. \<not> P x) xs) = filter P xs"
  by (induction xs) auto

lemma get_string_ok:
  assumes "\<forall>r\<in>set (extensions st). extension r \<noteq> None"
  shows "sieve_extensions_get_string st = Inr (join_spaces (capability_names st))"
proof (cases "dropWhile (\<lambda>r. \<not> reg_listed st r) (extensions st)")
  case Nil
  then have "filter (reg_listed st) (extensions st) = []"
    using filter_dropWhile_not [of "reg_listed st" "extensions st"] by simp
  then show ?thesis
    by (simp add: sieve_extensions_get_string_def first_listed_dropWhile [OF assms]
        capability_names_def Nil)
next
  case (Cons r rs)
  then have listed: "reg_listed st r" using hd_dropWhile [of "\<lambda>r. \<not> reg_listed st r" "extensions st"] by simp
  then obtain e where e: "extension r = Some e" by (auto simp: reg_listed_def split: option.splits)
  have "set rs \<subseteq> set (extensions st)"
    using set_dropWhileD [of _ "\<lambda>r. \<not> reg_listed st r" "extensions st"] Cons by auto
  with assms have rs: "\<forall>r\<in>set rs. extension r \<noteq> None" by auto
  have "filter (reg_listed st) (extensions st) = r # filter (reg_listed st) rs"
    using filter_dropWhile_not [of "reg_listed st" "extensions st"] Cons listed by simp
  then have names: "capability_names st = name e # map reg_name (filter (reg_listed st) rs)"
    by (simp add: capability_names_def reg_name_Some [OF e])
  show ?thesis
    by (simp add: sieve_extensions_get_string_def first_listed_dropWhile [OF assms] Cons e
        add_others_join [OF rs] names)
qed

lemma first_listed_null:
  "\<exists>r\<in>set eregs. extension r = None \<Longrightarrow>
     first_listed st eregs = Inl Null_dereference \<or>
     (\<exists>r rs. first_listed st eregs = Inr (r # rs) \<and> extension r \<noteq> None \<and>
        (\<exists>x\<in>set rs. extension x = None))"
proof (induction eregs)
  case Nil
  then show ?case by simp
next
  case (Cons r eregs)
  show ?case
  proof (cases "extension r")
    case None
    then show ?thesis by (simp add: list_extension_None)
  next
    case (Some e)
    with Cons.prems have ex: "\<exists>r\<in>set eregs. extension r = None" by auto
    show ?thesis
    proof (cases "reg_listed st r")
      case True
      with Some ex show ?thesis by (simp add: list_extension_Some)
    next
      case False
      with Some Cons.IH [OF ex] show ?thesis by (simp add: list_extension_Some)
    qed
  qed
qed

lemma add_others_null:
  "\<exists>r\<in>set eregs. extension r = None \<Longrightarrow> add_others st eregs extstr = Inl Null_dereference"
proof (induction eregs arbitrary: extstr)
  case Nil
  then show ?case by simp
next
  case (Cons r eregs)
  show ?case
  proof (cases "extension r")
    case None
    then show ?thesis by (simp add: list_extension_None)
  next
    case (Some e)
    with Cons.prems have ex: "\<exists>r\<in>set eregs. extension r = None" by auto
    from Some Cons.IH [OF ex] show ?thesis
      by (cases "reg_listed st r") (simp_all add: list_extension_Some)
  qed
qed

lemma get_string_null:
  assumes "\<exists>r\<in>set (extensions st). extension r = None"
  shows "sieve_extensions_get_string st = Inl Null_dereference"
  using first_listed_null [OF assms, of st]
  by (auto simp: sieve_extensions_get_string_def intro!: add_others_null split: option.splits)

text \<open>
  When every registration has its extension, \<^verbatim>\<open>sieve_extensions_get_string\<close> returns
  the names of the enabled extensions whose names do not begin with \<open>@\<close>, in the order of
  registration, joined by single spaces; no name in that list begins with \<open>@\<close>. A
  registration left without an extension by a failed load makes the function read
  through a NULL pointer. \<^verbatim>\<open>sieve_extension_get_by_name\<close> returns no extension for a name
  that begins with \<open>@\<close>.
\<close>

lemma get_string_lists_enabled:
  "((\<forall>r\<in>set (extensions st). extension r \<noteq> None) \<longrightarrow>
      sieve_extensions_get_string st = Inr (join_spaces (capability_names st))) \<and>
   ((\<exists>r\<in>set (extensions st). extension r = None) \<longrightarrow>
      sieve_extensions_get_string st = Inl Null_dereference) \<and>
   (\<forall>nm\<in>set (capability_names st). \<not> starts_with_at nm) \<and>
   (starts_with_at nm \<longrightarrow> sieve_extension_get_by_name st nm = Inr None)"
proof -
  have "\<forall>nm\<in>set (capability_names st). \<not> starts_with_at nm"
    by (auto simp: capability_names_def reg_listed_def reg_name_def split: option.splits)
  then show ?thesis
    using get_string_ok [of st] get_string_null [of st]
    by (simp add: sieve_extension_get_by_name_def)
qed

lemma failed_load_registry_eq:
  "failed_load_registry =
     \<lparr>extensions =
        [\<lparr>extension = Some fileinto_ext, ext_id = 0, required = False, loaded = True\<rparr>,
         \<lparr>extension = None, ext_id = 1, required = False, loaded = False\<rparr>],
      array_buffer = 0, array_grow = (\<lambda>n b. Suc b),
      extension_index = [''fileinto'' \<mapsto> (0, 0), ''regex'' \<mapsto> (0, 1)],
      id_store = (\<lambda>a. - 1)(0 := 0, 1 := 1),
      sys_log = [''failed to load '' @ CHR 0x27 # ''regex'' @ CHR 0x27 # '' extension support.'']\<rparr>"
  and failed_load_registry_call:
  "sieve_extension_register fileinto_registry regex_ext True = Inr (- 1, failed_load_registry)"
proof -
  let ?s = "\<lparr>extensions =
        [\<lparr>extension = Some fileinto_ext, ext_id = 0, required = False, loaded = True\<rparr>,
         \<lparr>extension = None, ext_id = 1, required = False, loaded = False\<rparr>],
      array_buffer = 0, array_grow = (\<lambda>n b. Suc b),
      extension_index = [''fileinto'' \<mapsto> (0, 0), ''regex'' \<mapsto> (0, 1)],
      id_store = (\<lambda>a. - 1)(0 := 0, 1 := 1),
      sys_log = [''failed to load '' @ CHR 0x27 # ''regex'' @ CHR 0x27 # '' extension support.'']\<rparr>"
  have call: "sieve_extension_register fileinto_registry regex_ext True = Inr (- 1, ?s)"
    by (simp add: fileinto_registry_eq reg_defs ext_fields)
  show eq: "failed_load_registry = ?s"
    unfolding failed_load_registry_def registered_def call by simp
  show "sieve_extension_register fileinto_registry regex_ext True = Inr (- 1, failed_load_registry)"
    unfolding eq by (rule call)
qed

text \<open>
  C7. The code does not do what the claim says once a load hook has failed. After the
  registration of fileinto the capability string is \<open>fileinto\<close>. The registration of an
  extension whose load hook fails returns -1 and leaves a registration without an
  extension in the array; fileinto is still enabled, and
  \<^verbatim>\<open>sieve_extensions_get_string\<close> now reads the name through the NULL pointer of that
  registration.
\<close>

theorem sieve_extensions_get_string_after_failed_load:
  "sieve_extension_register empty_registry fileinto_ext True = Inr (0, fileinto_registry) \<and>
   sieve_extensions_get_string fileinto_registry = Inr ''fileinto'' \<and>
   sieve_extension_register fileinto_registry regex_ext True = Inr (- 1, failed_load_registry) \<and>
   SIEVE_EXT_ENABLED failed_load_registry fileinto_ext \<and>
   sieve_extensions_get_string failed_load_registry = Inl Null_dereference"
proof -
  have 1: "sieve_extensions_get_string fileinto_registry = Inr ''fileinto''"
    by (simp add: sieve_extensions_get_string_def list_extension_def fileinto_registry_eq
        SIEVE_EXT_ENABLED_def ext_fields)
  have 2: "SIEVE_EXT_ENABLED failed_load_registry fileinto_ext"
    by (simp add: failed_load_registry_eq SIEVE_EXT_ENABLED_def ext_fields)
  have 3: "sieve_extensions_get_string failed_load_registry = Inl Null_dereference"
    by (simp add: sieve_extensions_get_string_def list_extension_def failed_load_registry_eq
        SIEVE_EXT_ENABLED_def ext_fields)
  from fileinto_registry_call failed_load_registry_call 1 2 3 show ?thesis by simp
qed

subsection \<open>Setting the status of the extensions\<close>

lemma map_filter_distinct_nth:
  "distinct (List.map_filter f xs) \<Longrightarrow> i < length xs \<Longrightarrow> j < length xs \<Longrightarrow>
     f (xs ! i) = Some a \<Longrightarrow> f (xs ! j) = Some a \<Longrightarrow> i = j"
proof (induction xs arbitrary: i j)
  case Nil
  then show ?case by simp
next
  case (Cons x xs)
  have mem: "a \<in> set (List.map_filter f xs)" if "n < length xs" "f (xs ! n) = Some a" for n
    using that by (force simp: List.map_filter_def)
  show ?case
  proof (cases i)
    case 0
    note i0 = this
    show ?thesis
    proof (cases j)
      case 0
      with i0 show ?thesis by simp
    next
      case (Suc j')
      with Cons.prems i0 mem [of j'] show ?thesis
        by (auto simp: List.map_filter_simps)
    qed
  next
    case (Suc i')
    note iS = this
    show ?thesis
    proof (cases j)
      case 0
      with Cons.prems iS mem [of i'] show ?thesis
        by (auto simp: List.map_filter_simps)
    next
      case (Suc j')
      from Cons.prems(1) have "distinct (List.map_filter f xs)"
        by (auto simp: List.map_filter_simps split: option.splits)
      from Cons.IH [OF this, of i' j'] Cons.prems iS Suc show ?thesis by simp
    qed
  qed
qed

lemma cells_distinct_nth:
  assumes "cells_distinct st" "i < length (extensions st)" "j < length (extensions st)"
    "extension (extensions st ! i) = Some e" "id_ptr e = Some a"
    "extension (extensions st ! j) = Some e'" "id_ptr e' = Some a"
  shows "i = j"
  using map_filter_distinct_nth [of reg_cell "extensions st" i j a] assms
  by (simp add: cells_distinct_def reg_cell_def)

lemma regs_kept_refl: "regs_kept st st"
  by (simp add: regs_kept_def)

lemma regs_kept_trans: "regs_kept st st1 \<Longrightarrow> regs_kept st1 st2 \<Longrightarrow> regs_kept st st2"
  by (simp add: regs_kept_def)

lemma regs_kept_buffer: "regs_kept st st' \<Longrightarrow> array_buffer st' = array_buffer st"
  by (simp add: regs_kept_def)

lemma regs_kept_length: "regs_kept st st' \<Longrightarrow> length (extensions st') = length (extensions st)"
  by (auto simp: regs_kept_def dest: map_eq_imp_length_eq)

lemma regs_kept_nth:
  assumes "regs_kept st st'" "k < length (extensions st)"
  shows "extension (extensions st' ! k) = extension (extensions st ! k)"
    and "ext_id (extensions st' ! k) = ext_id (extensions st ! k)"
    and "required (extensions st' ! k) = required (extensions st ! k)"
proof -
  have l: "k < length (extensions st')" using assms by (simp add: regs_kept_length)
  from assms(1) have "map extension (extensions st') ! k = map extension (extensions st) ! k"
    "map ext_id (extensions st') ! k = map ext_id (extensions st) ! k"
    "map required (extensions st') ! k = map required (extensions st) ! k"
    by (simp_all add: regs_kept_def)
  with l assms(2) show "extension (extensions st' ! k) = extension (extensions st ! k)"
    and "ext_id (extensions st' ! k) = ext_id (extensions st ! k)"
    and "required (extensions st' ! k) = required (extensions st ! k)"
    by simp_all
qed

lemma all_present_map: "all_present st \<longleftrightarrow> None \<notin> set (map extension (extensions st))"
  by (auto simp: all_present_def image_iff) (metis option.exhaust)+

lemma regs_kept_present: "regs_kept st st' \<Longrightarrow> all_present st' = all_present st"
  unfolding all_present_map by (simp only: regs_kept_def)

lemma map_filter_map: "List.map_filter g (map f xs) = List.map_filter (\<lambda>x. g (f x)) xs"
  by (induction xs) (simp_all add: List.map_filter_simps split: option.splits)

lemma cells_distinct_map:
  "cells_distinct st \<longleftrightarrow>
     distinct (List.map_filter (\<lambda>x. case x of None \<Rightarrow> None | Some ext \<Rightarrow> id_ptr ext)
                 (map extension (extensions st)))"
  by (simp add: cells_distinct_def map_filter_map reg_cell_def [abs_def])

lemma regs_kept_distinct: "regs_kept st st' \<Longrightarrow> cells_distinct st' = cells_distinct st"
  unfolding cells_distinct_map by (simp only: regs_kept_def)

lemma enable_result:
  assumes "extension (extensions st ! i) = Some e"
  shows "\<exists>st1. sieve_extension_enable st i = Inr st1 \<and> regs_kept st st1 \<and>
           set (sys_log st) \<subseteq> set (sys_log st1) \<and>
           id_store st1 =
             (case id_ptr e of None \<Rightarrow> id_store st
              | Some a \<Rightarrow> (id_store st)(a := ext_id (extensions st ! i)))"
  using assms
  by (auto simp: sieve_extension_enable_def sieve_extension_load_def regs_kept_def Let_def
      map_update map_update_same split: option.splits)

lemma disable_result:
  assumes "extension (extensions st ! i) = Some e"
  shows "\<exists>st1. sieve_extension_disable st i = Inr st1 \<and> regs_kept st st1 \<and>
           set (sys_log st) \<subseteq> set (sys_log st1) \<and>
           id_store st1 =
             (case id_ptr e of None \<Rightarrow> id_store st | Some a \<Rightarrow> (id_store st)(a := - 1))"
  using assms
  by (auto simp: sieve_extension_disable_def regs_kept_def split: option.splits)

lemma all_present_nth:
  "all_present st \<Longrightarrow> k < length (extensions st) \<Longrightarrow> \<exists>e. extension (extensions st ! k) = Some e"
  by (auto simp: all_present_def)

lemma set_extension_status_step:
  "set_extension_status ena (i # is) st =
     (case status_step ena st i of Inl e \<Rightarrow> Inl e | Inr st' \<Rightarrow> set_extension_status ena is st')"
  by (simp add: status_step_def Let_def split: option.splits)

lemma status_step_result:
  assumes "extension (extensions st ! i) = Some e"
  shows "\<exists>st1. status_step ena st i = Inr st1 \<and> regs_kept st st1 \<and>
           set (sys_log st) \<subseteq> set (sys_log st1) \<and>
           id_store st1 =
             (case id_ptr e of
                None \<Rightarrow> id_store st
              | Some a \<Rightarrow>
                  if starts_with_at (name e) then id_store st
                  else (id_store st)(a := new_status ena (array_buffer st) (extensions st ! i) i))"
proof (cases "id_ptr e \<noteq> None \<and> \<not> starts_with_at (name e)")
  case False
  with assms show ?thesis
    by (auto simp: status_step_def regs_kept_refl split: option.splits)
next
  case True
  then obtain a where a: "id_ptr e = Some a" by auto
  show ?thesis
  proof (cases "(array_buffer st, i) \<notin> set ena \<and> \<not> required (extensions st ! i)")
    case dis: True
    from disable_result [OF assms] a True dis assms show ?thesis
      by (auto simp: status_step_def new_status_def)
  next
    case en: False
    from enable_result [OF assms] a True en assms show ?thesis
      by (auto simp: status_step_def new_status_def)
  qed
qed

lemma set_extension_status_run:
  "set_extension_status ena is st = run_steps (status_step ena) is st"
  by (induction "is" arbitrary: st)
    (simp_all only: run_steps.simps set_extension_status_step set_extension_status.simps(1))

lemma enable_all_run: "enable_all is st = run_steps sieve_extension_enable is st"
  by (induction "is" arbitrary: st) (auto split: sum.splits)

lemma run_steps_result:
  assumes w: "writes step v"
    and "all_present st" "cells_distinct st" "distinct is"
    "\<forall>i\<in>set is. i < length (extensions st)"
  shows "\<exists>st'. run_steps step is st = Inr st' \<and> regs_kept st st' \<and>
     set (sys_log st) \<subseteq> set (sys_log st') \<and>
     (\<forall>k e a. k < length (extensions st) \<longrightarrow> extension (extensions st ! k) = Some e \<longrightarrow>
        id_ptr e = Some a \<longrightarrow>
        id_store st' a =
          (case (if k \<in> set is then v (array_buffer st) (extensions st ! k) k e else None) of
             None \<Rightarrow> id_store st a | Some x \<Rightarrow> x))"
  using assms(2-)
proof (induction "is" arbitrary: st)
  case Nil
  then show ?case by (simp add: regs_kept_refl)
next
  case (Cons i "is")
  from Cons.prems have i: "i < length (extensions st)" and inotin: "i \<notin> set is"
    and dis: "distinct is" and rest: "\<forall>j\<in>set is. j < length (extensions st)"
    by simp_all
  from all_present_nth [OF Cons.prems(1) i] obtain ei where ei: "extension (extensions st ! i) = Some ei"
    by blast
  from w ei obtain st1 where
    step: "step st i = Inr st1" and kept1: "regs_kept st st1"
    and log1: "set (sys_log st) \<subseteq> set (sys_log st1)"
    and store1: "id_store st1 =
             (case id_ptr ei of
                None \<Rightarrow> id_store st
              | Some a \<Rightarrow>
                  (case v (array_buffer st) (extensions st ! i) i ei of
                     None \<Rightarrow> id_store st
                   | Some x \<Rightarrow> (id_store st)(a := x)))"
    unfolding writes_def by blast
  have vk: "v (array_buffer st1) (extensions st1 ! k) k e = v (array_buffer st) (extensions st ! k) k e"
    if "k < length (extensions st)" for k e
    using w kept1 that regs_kept_buffer [OF kept1] unfolding writes_def by simp
  have len1: "length (extensions st1) = length (extensions st)"
    using kept1 by (rule regs_kept_length)
  have "all_present st1" "cells_distinct st1"
    using kept1 Cons.prems by (simp_all add: regs_kept_present regs_kept_distinct)
  from Cons.IH [OF this dis] rest len1 obtain st' where
    run: "run_steps step is st1 = Inr st'" and kept2: "regs_kept st1 st'"
    and log2: "set (sys_log st1) \<subseteq> set (sys_log st')"
    and store2: "\<And>k e a. k < length (extensions st1) \<Longrightarrow> extension (extensions st1 ! k) = Some e \<Longrightarrow>
        id_ptr e = Some a \<Longrightarrow>
        id_store st' a =
          (case (if k \<in> set is then v (array_buffer st1) (extensions st1 ! k) k e else None) of
             None \<Rightarrow> id_store st1 a | Some x \<Rightarrow> x)"
    by auto
  have "run_steps step (i # is) st = Inr st'"
    by (simp add: step run)
  moreover have "regs_kept st st'" using kept1 kept2 by (rule regs_kept_trans)
  moreover have "set (sys_log st) \<subseteq> set (sys_log st')" using log1 log2 by simp
  moreover have "id_store st' a =
          (case (if k \<in> set (i # is) then v (array_buffer st) (extensions st ! k) k e else None) of
             None \<Rightarrow> id_store st a | Some x \<Rightarrow> x)"
    if k: "k < length (extensions st)" and e: "extension (extensions st ! k) = Some e"
      and a: "id_ptr e = Some a" for k e a
  proof -
    have e1: "extension (extensions st1 ! k) = Some e"
      using regs_kept_nth(1) [OF kept1 k] e by simp
    have s2: "id_store st' a =
          (case (if k \<in> set is then v (array_buffer st) (extensions st ! k) k e else None) of
             None \<Rightarrow> id_store st1 a | Some x \<Rightarrow> x)"
      using store2 [OF _ e1 a] k len1 vk [OF k, of e] by simp
    show ?thesis
    proof (cases "k = i")
      case True
      with e ei have "ei = e" by simp
      with True inotin s2 store1 a show ?thesis by (simp split: option.splits)
    next
      case False
      have "id_store st1 a = id_store st a"
      proof (cases "id_ptr ei")
        case None
        with store1 show ?thesis by simp
      next
        case (Some ai)
        have "ai \<noteq> a"
        proof
          assume "ai = a"
          with cells_distinct_nth [OF Cons.prems(2) i k ei _ e a] Some have "i = k" by simp
          with False show False by simp
        qed
        with store1 Some show ?thesis by (simp split: option.splits)
      qed
      with s2 False show ?thesis by (simp split: option.splits)
    qed
  qed
  ultimately show ?case by blast
qed

lemma writes_status_step:
  "writes (status_step ena)
     (\<lambda>b r k e. if starts_with_at (name e) then None else Some (new_status ena b r k))"
  unfolding writes_def
proof (intro conjI allI impI)
  fix st :: sieve_extensions_state and i :: nat and e :: sieve_extension
  assume e: "extension (extensions st ! i) = Some e"
  from status_step_result [OF e, of ena]
  show "\<exists>st1. status_step ena st i = Inr st1 \<and> regs_kept st st1 \<and>
           set (sys_log st) \<subseteq> set (sys_log st1) \<and>
           id_store st1 =
             (case id_ptr e of
                None \<Rightarrow> id_store st
              | Some a \<Rightarrow>
                  (case (if starts_with_at (name e) then None
                         else Some (new_status ena (array_buffer st) (extensions st ! i) i)) of
                     None \<Rightarrow> id_store st
                   | Some x \<Rightarrow> (id_store st)(a := x)))"
    by (auto split: option.splits)
next
  fix b :: nat and st st1 :: sieve_extensions_state and k :: nat and e :: sieve_extension
  assume "regs_kept st st1" "k < length (extensions st)"
  then show "(if starts_with_at (name e) then None else Some (new_status ena b (extensions st1 ! k) k)) =
       (if starts_with_at (name e) then None else Some (new_status ena b (extensions st ! k) k))"
    by (simp add: new_status_def regs_kept_nth)
qed

lemma writes_enable: "writes sieve_extension_enable (\<lambda>b r k e. Some (ext_id r))"
  unfolding writes_def
proof (intro conjI allI impI)
  fix st :: sieve_extensions_state and i :: nat and e :: sieve_extension
  assume e: "extension (extensions st ! i) = Some e"
  from enable_result [OF e]
  show "\<exists>st1. sieve_extension_enable st i = Inr st1 \<and> regs_kept st st1 \<and>
           set (sys_log st) \<subseteq> set (sys_log st1) \<and>
           id_store st1 =
             (case id_ptr e of
                None \<Rightarrow> id_store st
              | Some a \<Rightarrow>
                  (case Some (ext_id (extensions st ! i)) of
                     None \<Rightarrow> id_store st
                   | Some x \<Rightarrow> (id_store st)(a := x)))"
    by (auto split: option.splits)
next
  fix b :: nat and st st1 :: sieve_extensions_state and k :: nat and e :: sieve_extension
  assume "regs_kept st st1" "k < length (extensions st)"
  then show "Some (ext_id (extensions st1 ! k)) = Some (ext_id (extensions st ! k))"
    by (simp add: regs_kept_nth)
qed

lemma fold_names_set:
  "set (fst (fold_names index names (ena0, log0))) =
     set ena0 \<union> {p. \<exists>t\<in>set names. t \<noteq> [] \<and> \<not> starts_with_at t \<and> index t = Some p}"
proof (induction names arbitrary: ena0 log0)
  case Nil
  then show ?case by (simp add: fold_names_def)
next
  case (Cons t names)
  obtain ena1 log1 where step: "set_string_name index t (ena0, log0) = (ena1, log1)"
    by (cases "set_string_name index t (ena0, log0)")
  then have ena1: "set ena1 = set ena0 \<union> {p. t \<noteq> [] \<and> \<not> starts_with_at t \<and> index t = Some p}"
    by (auto simp: set_string_name_def split: if_splits option.splits)
  have "fold_names index (t # names) (ena0, log0) = fold_names index names (ena1, log1)"
    by (simp add: fold_names_def step)
  with Cons.IH [of ena1 log1] ena1 show ?case by auto
qed

lemma fold_names_log:
  "set (snd (fold_names index names (ena0, log0))) =
     set log0 \<union>
     {unknown_extension_warning t |t. t \<in> set names \<and> t \<noteq> [] \<and> (starts_with_at t \<or> index t = None)}"
proof (induction names arbitrary: ena0 log0)
  case Nil
  then show ?case by (simp add: fold_names_def)
next
  case (Cons t names)
  obtain ena1 log1 where step: "set_string_name index t (ena0, log0) = (ena1, log1)"
    by (cases "set_string_name index t (ena0, log0)")
  then have log1: "set log1 = set log0 \<union>
      {unknown_extension_warning t |x. x = t \<and> t \<noteq> [] \<and> (starts_with_at t \<or> index t = None)}"
    by (auto simp: set_string_name_def unknown_extension_warning_def split: if_splits option.splits)
  have "fold_names index (t # names) (ena0, log0) = fold_names index names (ena1, log1)"
    by (simp add: fold_names_def step)
  with Cons.IH [of ena1 log1] log1 show ?case by auto
qed

lemma indexed_by_name:
  assumes wf: "registry_wf st" and k: "k < length (extensions st)"
    and e: "extension (extensions st ! k) = Some e"
  shows "extension_index st nm = Some (array_buffer st, k) \<longleftrightarrow> nm = name e"
proof
  assume ix: "extension_index st nm = Some (array_buffer st, k)"
  from wf have "index_sound st" by (simp add: registry_wf_def)
  from index_soundD [OF this ix] e show "nm = name e" by simp
next
  assume nm: "nm = name e"
  from wf k obtain n where n: "extension_index st n = Some (array_buffer st, k)"
    by (auto simp: registry_wf_def index_onto_def)
  from wf have "index_sound st" by (simp add: registry_wf_def)
  from index_soundD [OF this n] e have "name e = n" by simp
  with n nm show "extension_index st nm = Some (array_buffer st, k)" by simp
qed

lemma in_ena_iff:
  assumes wf: "registry_wf st" and k: "k < length (extensions st)"
    and e: "extension (extensions st ! k) = Some e" and vis: "\<not> starts_with_at (name e)"
  shows "(array_buffer st, k) \<in> set (fst (fold_names (extension_index st) (split_at_spaces s) ([], l))) \<longleftrightarrow>
         name e \<in> set (listed_names s)"
  using vis by (auto simp: fold_names_set indexed_by_name [OF wf k e] listed_names_def)

lemma set_string_Some_result:
  assumes ap: "all_present st" and cd: "cells_distinct st"
    and s: "s \<noteq> [] \<and> last s \<noteq> CHR '' ''"
  shows "\<exists>st'. sieve_extensions_set_string st (Some s) = Some (Inr st') \<and> regs_kept st st' \<and>
     set (snd (fold_names (extension_index st) (split_at_spaces s) ([], sys_log st))) \<subseteq>
       set (sys_log st') \<and>
     (\<forall>k e a. k < length (extensions st) \<longrightarrow> extension (extensions st ! k) = Some e \<longrightarrow>
        id_ptr e = Some a \<longrightarrow>
        id_store st' a =
          (if starts_with_at (name e) then id_store st a
           else new_status (fst (fold_names (extension_index st) (split_at_spaces s) ([], sys_log st)))
                  (array_buffer st) (extensions st ! k) k))"
proof -
  let ?acc = "fold_names (extension_index st) (split_at_spaces s) ([], sys_log st)"
  let ?st0 = "st\<lparr>sys_log := snd ?acc\<rparr>"
  have loop: "set_string_loop (extension_index st) s ([], sys_log st) = Some ?acc"
    using s by (simp add: set_string_loop_eq)
  have call: "sieve_extensions_set_string st (Some s) =
      Some (run_steps (status_step (fst ?acc)) [0..<length (extensions st)] ?st0)"
    by (simp add: sieve_extensions_set_string_def loop set_extension_status_run split: prod.splits)
  have ap0: "all_present ?st0" and cd0: "cells_distinct ?st0"
    using ap cd by (simp_all add: all_present_def cells_distinct_def)
  from run_steps_result [OF writes_status_step ap0 cd0, of "[0..<length (extensions st)]" "fst ?acc"]
  obtain st' where run: "run_steps (status_step (fst ?acc)) [0..<length (extensions st)] ?st0 = Inr st'"
    and kept: "regs_kept ?st0 st'"
    and log: "set (sys_log ?st0) \<subseteq> set (sys_log st')"
    and raw: "\<forall>k e a. k < length (extensions ?st0) \<longrightarrow> extension (extensions ?st0 ! k) = Some e \<longrightarrow>
        id_ptr e = Some a \<longrightarrow>
        id_store st' a =
          (case (if k \<in> set [0..<length (extensions st)]
                 then (if starts_with_at (name e) then None
                       else Some (new_status (fst ?acc) (array_buffer ?st0) (extensions ?st0 ! k) k))
                 else None) of
             None \<Rightarrow> id_store ?st0 a | Some x \<Rightarrow> x)"
    by auto
  have store: "id_store st' a =
          (if starts_with_at (name e) then id_store st a
           else new_status (fst ?acc) (array_buffer st) (extensions st ! k) k)"
    if "k < length (extensions st)" "extension (extensions st ! k) = Some e" "id_ptr e = Some a"
    for k e a
    using raw [rule_format, of k e a] that by simp
  have "regs_kept st st'" using kept by (simp add: regs_kept_def)
  moreover have "set (snd ?acc) \<subseteq> set (sys_log st')" using log by simp
  ultimately show ?thesis using call run store by auto
qed

lemma set_string_None_result:
  assumes ap: "all_present st" and cd: "cells_distinct st"
  shows "\<exists>st'. sieve_extensions_set_string st None = Some (Inr st') \<and> regs_kept st st' \<and>
     (\<forall>k e a. k < length (extensions st) \<longrightarrow> extension (extensions st ! k) = Some e \<longrightarrow>
        id_ptr e = Some a \<longrightarrow> id_store st' a = ext_id (extensions st ! k))"
proof -
  from run_steps_result [OF writes_enable ap cd, of "[0..<length (extensions st)]"]
  obtain st' where run: "run_steps sieve_extension_enable [0..<length (extensions st)] st = Inr st'"
    and kept: "regs_kept st st'"
    and raw: "\<forall>k e a. k < length (extensions st) \<longrightarrow> extension (extensions st ! k) = Some e \<longrightarrow>
        id_ptr e = Some a \<longrightarrow>
        id_store st' a =
          (case (if k \<in> set [0..<length (extensions st)]
                 then Some (ext_id (extensions st ! k)) else None) of
             None \<Rightarrow> id_store st a | Some x \<Rightarrow> x)"
    by auto
  have "id_store st' a = ext_id (extensions st ! k)"
    if "k < length (extensions st)" "extension (extensions st ! k) = Some e" "id_ptr e = Some a"
    for k e a
    using raw [rule_format, of k e a] that by simp
  with run kept show ?thesis
    by (auto simp: sieve_extensions_set_string_def enable_all_run)
qed

lemma set_string_diverges:
  "s = [] \<or> last s = CHR '' '' \<Longrightarrow> sieve_extensions_set_string st (Some s) = None"
  by (auto simp: sieve_extensions_set_string_def set_string_loop_eq)

lemma set_string_returns_iff:
  "sieve_extensions_set_string st (Some s) \<noteq> None \<longleftrightarrow> s \<noteq> [] \<and> last s \<noteq> CHR '' ''"
  by (auto simp: sieve_extensions_set_string_def set_string_loop_eq split: prod.splits)

lemma register_if_new_required:
  "j < length (extensions st) \<Longrightarrow>
     required (extensions (snd (register_if_new st x)) ! j) = required (extensions st ! j)"
  by (auto simp: register_if_new_def Let_def nth_append split: option.splits)

lemma register_if_new_length_le:
  "length (extensions st) \<le> length (extensions (snd (register_if_new st x)))"
  by (auto simp: register_if_new_def Let_def split: option.splits)

lemma register_impl_required:
  assumes j: "j < length (extensions st)"
    and impl: "sieve_extension_register_impl st x ld = Inr (r, st')"
  shows "required (extensions st' ! j) = required (extensions st ! j)"
    and "j < length (extensions st')"
proof -
  from impl obtain ereg st1 where rin: "register_if_new st x = (ereg, st1)"
    and en: "enable_registered st1 (snd ereg) x ld = (r, st')"
    by (rule register_impl_steps)
  have j1: "j < length (extensions st1)"
    using register_if_new_length_le [of st x] j rin by simp
  then show "j < length (extensions st')"
    using enable_registered_frame(1) [OF en] by simp
  have "required (extensions st' ! j) = map required (extensions st') ! j"
    using j1 enable_registered_frame(1) [OF en] by simp
  also have "\<dots> = map required (extensions st1) ! j"
    using enable_registered_frame(4) [OF en] by simp
  also have "\<dots> = required (extensions st1 ! j)" using j1 by simp
  also have "\<dots> = required (extensions st ! j)"
    using register_if_new_required [OF j, of x] rin by simp
  finally show "required (extensions st' ! j) = required (extensions st ! j)" .
qed

lemma register_required:
  assumes "j < length (extensions st)" "sieve_extension_register st x ld = Inr (i, st')"
  shows "required (extensions st' ! j) = required (extensions st ! j)"
proof -
  from assms(2) obtain r where impl: "sieve_extension_register_impl st x ld = Inr (r, st')"
    by (rule register_cases)
  from register_impl_required(1) [OF assms(1) impl] show ?thesis .
qed

lemma nth_list_update_if:
  "(xs[a := y]) ! j = (if a = j \<and> a < length xs then y else xs ! j)"
  by (cases "a < length xs") (auto simp: nth_list_update list_update_beyond)

lemma require_cases:
  assumes "sieve_extension_require st x = Inr (i, st')"
  obtains st1 where "sieve_extension_register_impl st x True = Inr (None, st1)"
      and "i = - 1" and "st' = st1"
  | k st1 where "sieve_extension_register_impl st x True = Inr (Some k, st1)"
      and "i = ext_id (extensions st1 ! k)"
      and "st' = st1\<lparr>extensions := (extensions st1)[k := (extensions st1 ! k)\<lparr>required := True\<rparr>]\<rparr>"
  using assms
  by (auto simp: sieve_extension_require_def split: sum.splits prod.splits option.splits)

lemma require_returns:
  assumes "registry_wf st" "stays_in_place st x"
  shows "\<exists>i st'. sieve_extension_require st x = Inr (i, st')"
proof -
  obtain ereg st1 where rin: "register_if_new st x = (ereg, st1)"
    by (cases "register_if_new st x")
  from register_impl_unfold [OF assms rin, of True] show ?thesis
    by (cases "enable_registered st1 (snd ereg) x True")
       (auto simp: sieve_extension_require_def split: option.splits)
qed

lemma required_update_wf:
  assumes "registry_wf st"
  shows "registry_wf (st\<lparr>extensions := (extensions st)[k := (extensions st ! k)\<lparr>required := True\<rparr>]\<rparr>)"
proof -
  let ?st = "st\<lparr>extensions := (extensions st)[k := (extensions st ! k)\<lparr>required := True\<rparr>]\<rparr>"
  have "map ext_id (extensions ?st) = map ext_id (extensions st)"
    by (simp add: map_update map_update_same)
  moreover have "extension (extensions ?st ! j) = extension (extensions st ! j)" for j
    by (simp add: nth_list_update_if)
  ultimately show ?thesis
    using assms by (simp add: registry_wf_def ids_dense_def index_sound_def index_onto_def)
qed

lemma require_wf:
  assumes "registry_wf st" "stays_in_place st x"
    and "sieve_extension_require st x = Inr (i, st')"
  shows "registry_wf st'" and "array_buffer st' = array_buffer st"
proof -
  from assms(3) have "registry_wf st' \<and> array_buffer st' = array_buffer st"
  proof (cases rule: require_cases)
    case (1 st1)
    with register_impl_wf [OF assms(1,2) 1(1)] show ?thesis by simp
  next
    case (2 k st1)
    from register_impl_wf [OF assms(1,2) 2(1)] required_update_wf [of st1 k] 2(3)
    show ?thesis by simp
  qed
  then show "registry_wf st'" and "array_buffer st' = array_buffer st" by simp_all
qed

lemma require_required:
  assumes "j < length (extensions st)" "required (extensions st ! j)"
    and "sieve_extension_require st x = Inr (i, st')"
  shows "required (extensions st' ! j)"
  using assms(3)
proof (cases rule: require_cases)
  case (1 st1)
  with register_impl_required(1) [OF assms(1) 1(1)] assms(2) show ?thesis by simp
next
  case (2 k st1)
  from register_impl_required [OF assms(1) 2(1)] assms(2)
  have "required (extensions st1 ! j)" "j < length (extensions st1)" by simp_all
  with 2(3) show ?thesis by (simp add: nth_list_update_if)
qed

lemma require_marks:
  assumes wf: "registry_wf st" and sp: "stays_in_place st x"
    and rq: "sieve_extension_require st x = Inr (i, st')" and i: "i \<noteq> - 1"
  shows "\<exists>k. k < length (extensions st') \<and>
           extension_index st' (name x) = Some (array_buffer st', k) \<and>
           i = int k \<and> required (extensions st' ! k)"
  using rq
proof (cases rule: require_cases)
  case (1 st1)
  with i show ?thesis by simp
next
  case (2 k st1)
  from register_impl_wf [OF wf sp 2(1)] have wf1: "registry_wf st1" by simp
  from register_impl_result(1) [OF wf sp 2(1)]
  have ix: "extension_index st1 (name x) = Some (array_buffer st1, k)" by simp
  from wf1 have "index_sound st1" by (simp add: registry_wf_def)
  from index_soundD [OF this ix] have k: "k < length (extensions st1)" by simp
  from wf1 k have "ext_id (extensions st1 ! k) = int k" by (simp add: registry_wf_def ids_dense_nth)
  with 2 k ix show ?thesis by auto
qed

subsection \<open>The example registry\<close>

lemma example_registry_eq:
  "example_registry =
     \<lparr>extensions =
        [\<lparr>extension = Some fileinto_ext, ext_id = 0, required = False, loaded = True\<rparr>,
         \<lparr>extension = Some hidden_ext, ext_id = 1, required = False, loaded = True\<rparr>,
         \<lparr>extension = Some envelope_ext, ext_id = 2, required = True, loaded = True\<rparr>,
         \<lparr>extension = Some vacation_ext, ext_id = 3, required = False, loaded = False\<rparr>],
      array_buffer = 0, array_grow = (\<lambda>n b. Suc b),
      extension_index =
        [''fileinto'' \<mapsto> (0, 0), ''@comparators'' \<mapsto> (0, 1), ''envelope'' \<mapsto> (0, 2),
         ''vacation'' \<mapsto> (0, 3)],
      id_store = (\<lambda>a. - 1)(0 := 0, 2 := 1, 4 := 2),
      sys_log = []\<rparr>"
  and example_registry_wf: "registry_wf example_registry"
proof -
  let ?s2 = "\<lparr>extensions =
        [\<lparr>extension = Some fileinto_ext, ext_id = 0, required = False, loaded = True\<rparr>,
         \<lparr>extension = Some hidden_ext, ext_id = 1, required = False, loaded = True\<rparr>],
      array_buffer = 0, array_grow = (\<lambda>n b. Suc b),
      extension_index = [''fileinto'' \<mapsto> (0, 0), ''@comparators'' \<mapsto> (0, 1)],
      id_store = (\<lambda>a. - 1)(0 := 0, 2 := 1), sys_log = []\<rparr>"
  let ?s3 = "\<lparr>extensions =
        [\<lparr>extension = Some fileinto_ext, ext_id = 0, required = False, loaded = True\<rparr>,
         \<lparr>extension = Some hidden_ext, ext_id = 1, required = False, loaded = True\<rparr>,
         \<lparr>extension = Some envelope_ext, ext_id = 2, required = True, loaded = True\<rparr>],
      array_buffer = 0, array_grow = (\<lambda>n b. Suc b),
      extension_index =
        [''fileinto'' \<mapsto> (0, 0), ''@comparators'' \<mapsto> (0, 1), ''envelope'' \<mapsto> (0, 2)],
      id_store = (\<lambda>a. - 1)(0 := 0, 2 := 1, 4 := 2), sys_log = []\<rparr>"
  let ?s4 = "\<lparr>extensions =
        [\<lparr>extension = Some fileinto_ext, ext_id = 0, required = False, loaded = True\<rparr>,
         \<lparr>extension = Some hidden_ext, ext_id = 1, required = False, loaded = True\<rparr>,
         \<lparr>extension = Some envelope_ext, ext_id = 2, required = True, loaded = True\<rparr>,
         \<lparr>extension = Some vacation_ext, ext_id = 3, required = False, loaded = False\<rparr>],
      array_buffer = 0, array_grow = (\<lambda>n b. Suc b),
      extension_index =
        [''fileinto'' \<mapsto> (0, 0), ''@comparators'' \<mapsto> (0, 1), ''envelope'' \<mapsto> (0, 2),
         ''vacation'' \<mapsto> (0, 3)],
      id_store = (\<lambda>a. - 1)(0 := 0, 2 := 1, 4 := 2),
      sys_log = []\<rparr>"
  have 2: "sieve_extension_register fileinto_registry hidden_ext True = Inr (1, ?s2)"
    by (simp add: fileinto_registry_eq reg_defs ext_fields)
  have 3: "sieve_extension_require ?s2 envelope_ext = Inr (2, ?s3)"
    by (simp add: reg_defs ext_fields numeral_2_eq_2)
  have 4: "sieve_extension_register ?s3 vacation_ext False = Inr (3, ?s4)"
    by (simp add: reg_defs ext_fields numeral_3_eq_3)
  have r1: "registered empty_registry fileinto_ext True = fileinto_registry"
    by (simp add: fileinto_registry_def)
  have r2: "registered fileinto_registry hidden_ext True = ?s2"
    unfolding registered_def 2 by simp
  have r3: "required_in ?s2 envelope_ext = ?s3"
    unfolding required_in_def 3 by simp
  show eq: "example_registry = ?s4"
    unfolding example_registry_def r1 r2 r3 unfolding registered_def 4 by simp
  have wf2: "registry_wf ?s2"
    by (rule register_wf(1) [OF fileinto_registry_wf _ 2])
       (simp add: stays_in_place_def fileinto_registry_eq)
  have wf3: "registry_wf ?s3"
    by (rule require_wf(1) [OF wf2 _ 3]) (simp add: stays_in_place_def)
  have "registry_wf ?s4"
    by (rule register_wf(1) [OF wf3 _ 4]) (simp add: stays_in_place_def)
  with eq show "registry_wf example_registry" by simp
qed

lemma example_registry_present: "all_present example_registry"
  by (simp add: all_present_def example_registry_eq)

lemma example_registry_distinct: "cells_distinct example_registry"
  by (simp add: cells_distinct_def example_registry_eq List.map_filter_simps reg_cell_def ext_fields)

lemma example_regs:
  "length (extensions example_registry) = 4"
  "extensions example_registry ! 0 =
     \<lparr>extension = Some fileinto_ext, ext_id = 0, required = False, loaded = True\<rparr>"
  "extensions example_registry ! 2 =
     \<lparr>extension = Some envelope_ext, ext_id = 2, required = True, loaded = True\<rparr>"
  by (simp_all add: example_registry_eq)

text \<open>
  C8, as the claim states it, fails: the code has no \<open>+\<close> or \<open>-\<close> syntax. With fileinto
  enabled, the list \<open>+fileinto\<close> leaves it disabled, since the name \<open>+fileinto\<close> is
  unknown and fileinto is not in the list; and the list \<open>fileinto -fileinto\<close> leaves it
  enabled.
\<close>

theorem sieve_extensions_set_string_plus_minus_counterexample:
  "SIEVE_EXT_ENABLED example_registry fileinto_ext \<and>
   sieve_extensions_set_string example_registry (Some ''+fileinto'') = Some (Inr after_plus) \<and>
   \<not> SIEVE_EXT_ENABLED after_plus fileinto_ext \<and>
   sieve_extensions_set_string example_registry (Some ''fileinto -fileinto'') =
     Some (Inr after_minus) \<and>
   SIEVE_EXT_ENABLED after_minus fileinto_ext"
  by (simp add: after_plus_def after_minus_def state_after_def
      sieve_extensions_set_string_def set_string_loop_eq
      fold_names_def set_string_name_def example_registry_eq upt_rec
      sieve_extension_enable_def sieve_extension_disable_def sieve_extension_load_def
      SIEVE_EXT_ENABLED_def ext_fields Let_def)

text \<open>
  C8, amended. The extension list is a list of plain names separated by single spaces; a
  name such as \<open>+N\<close> or \<open>-N\<close> is looked up as it is written. Take a well-formed registry
  (its array has not moved since the registrations were made) in which no load has
  failed and no two extensions share an id variable. A call with a list that ends in a
  name returns; afterwards an extension that has an \<^verbatim>\<open>_id\<close> and is not hidden is enabled
  exactly when it is required or its own name is one of the names of the list, and for
  every name of the list that is hidden or not registered the log holds the warning that
  the unknown extension was ignored. With an empty list or a list that ends in a space
  the call does not return.
\<close>

theorem sieve_extensions_set_string_plain_names:
  assumes wf: "registry_wf st" and ap: "all_present st" and cd: "cells_distinct st"
    and k: "k < length (extensions st)" and e: "extension (extensions st ! k) = Some e"
    and a: "id_ptr e \<noteq> None" and vis: "\<not> starts_with_at (name e)"
  shows "(s \<noteq> [] \<and> last s \<noteq> CHR '' '' \<longrightarrow>
            (\<exists>st'. sieve_extensions_set_string st (Some s) = Some (Inr st') \<and>
               (SIEVE_EXT_ENABLED st' e \<longleftrightarrow>
                  required (extensions st ! k) \<or> name e \<in> set (listed_names s)) \<and>
               (\<forall>t\<in>set (listed_names s). starts_with_at t \<or> extension_index st t = None \<longrightarrow>
                  unknown_extension_warning t \<in> set (sys_log st')))) \<and>
         (s = [] \<or> last s = CHR '' '' \<longrightarrow> sieve_extensions_set_string st (Some s) = None)"
proof (intro conjI impI)
  assume s: "s \<noteq> [] \<and> last s \<noteq> CHR '' ''"
  from a obtain c where c: "id_ptr e = Some c" by auto
  let ?acc = "fold_names (extension_index st) (split_at_spaces s) ([], sys_log st)"
  from set_string_Some_result [OF ap cd s] obtain st' where
    res: "sieve_extensions_set_string st (Some s) = Some (Inr st')"
    and log: "set (snd ?acc) \<subseteq> set (sys_log st')"
    and store: "id_store st' c = new_status (fst ?acc) (array_buffer st) (extensions st ! k) k"
    using k e c vis by auto
  from wf k have id: "ext_id (extensions st ! k) = int k"
    by (simp add: registry_wf_def ids_dense_nth)
  have "SIEVE_EXT_ENABLED st' e \<longleftrightarrow>
      required (extensions st ! k) \<or> (array_buffer st, k) \<in> set (fst ?acc)"
    by (auto simp: SIEVE_EXT_ENABLED_def c store new_status_def id)
  with in_ena_iff [OF wf k e vis, of s "sys_log st"]
  have en: "SIEVE_EXT_ENABLED st' e \<longleftrightarrow>
      required (extensions st ! k) \<or> name e \<in> set (listed_names s)"
    by simp
  have warn: "\<forall>t\<in>set (listed_names s). starts_with_at t \<or> extension_index st t = None \<longrightarrow>
      unknown_extension_warning t \<in> set (sys_log st')"
  proof (intro ballI impI)
    fix t assume t: "t \<in> set (listed_names s)"
      and u: "starts_with_at t \<or> extension_index st t = None"
    from t have "t \<in> set (split_at_spaces s)" "t \<noteq> []" by (simp_all add: listed_names_def)
    with u have "unknown_extension_warning t \<in> set (snd ?acc)"
      unfolding fold_names_log by blast
    with log show "unknown_extension_warning t \<in> set (sys_log st')" by blast
  qed
  from res en warn
  show "\<exists>st'. sieve_extensions_set_string st (Some s) = Some (Inr st') \<and>
               (SIEVE_EXT_ENABLED st' e \<longleftrightarrow>
                  required (extensions st ! k) \<or> name e \<in> set (listed_names s)) \<and>
               (\<forall>t\<in>set (listed_names s). starts_with_at t \<or> extension_index st t = None \<longrightarrow>
                  unknown_extension_warning t \<in> set (sys_log st'))"
    by (intro exI [of _ st'] conjI)
next
  assume "s = [] \<or> last s = CHR '' ''"
  then show "sieve_extensions_set_string st (Some s) = None" by (rule set_string_diverges)
qed

text \<open>
  The amended C8 at the example registry: \<open>+fileinto\<close> does not enable fileinto and
  leaves a warning in the log, the plain name enables it, and a list that ends in a
  space keeps the call from returning.
\<close>

theorem sieve_extensions_set_string_plain_names_witness:
  "enabled_after example_registry (Some ''vacation +fileinto'') fileinto_ext = Some False \<and>
   ''ignored unknown extension '' @ CHR 0x27 # ''+fileinto'' @
     CHR 0x27 # '' while configuring available extensions''
     \<in> set (sys_log (state_after example_registry (Some ''vacation +fileinto''))) \<and>
   enabled_after example_registry (Some ''vacation fileinto'') fileinto_ext = Some True \<and>
   sieve_extensions_set_string example_registry (Some ''fileinto '') = None"
proof -
  have k: "0 < length (extensions example_registry)"
    and e: "extension (extensions example_registry ! 0) = Some fileinto_ext"
    and r: "\<not> required (extensions example_registry ! 0)"
    by (simp_all add: example_regs)
  have a: "id_ptr fileinto_ext \<noteq> None" and vis: "\<not> starts_with_at (name fileinto_ext)"
    by (simp_all add: ext_fields)
  note t = sieve_extensions_set_string_plain_names [OF example_registry_wf
      example_registry_present example_registry_distinct k e a vis]
  have names: "listed_names ''vacation +fileinto'' = [''vacation'', ''+fileinto'']"
    "listed_names ''vacation fileinto'' = [''vacation'', ''fileinto'']"
    by (simp_all add: listed_names_def)
  have unknown: "extension_index example_registry ''+fileinto'' = None"
    by (simp add: example_registry_eq)
  from t [of "''vacation +fileinto''"] obtain st' where
    res: "sieve_extensions_set_string example_registry (Some ''vacation +fileinto'') = Some (Inr st')"
    and en: "SIEVE_EXT_ENABLED st' fileinto_ext \<longleftrightarrow>
       required (extensions example_registry ! 0) \<or>
       name fileinto_ext \<in> set (listed_names ''vacation +fileinto'')"
    and warn: "\<forall>t\<in>set (listed_names ''vacation +fileinto'').
       starts_with_at t \<or> extension_index example_registry t = None \<longrightarrow>
       unknown_extension_warning t \<in> set (sys_log st')"
    by auto
  from en r have 1: "enabled_after example_registry (Some ''vacation +fileinto'') fileinto_ext = Some False"
    by (simp add: enabled_after_def res names ext_fields)
  from warn unknown have "unknown_extension_warning ''+fileinto'' \<in> set (sys_log st')"
    by (simp add: names)
  then have 2: "''ignored unknown extension '' @ CHR 0x27 # ''+fileinto'' @
     CHR 0x27 # '' while configuring available extensions''
     \<in> set (sys_log (state_after example_registry (Some ''vacation +fileinto'')))"
    by (simp add: state_after_def res unknown_extension_warning_def)
  have 3: "enabled_after example_registry (Some ''vacation fileinto'') fileinto_ext = Some True"
    using t [of "''vacation fileinto''"]
    by (auto simp: enabled_after_def names ext_fields)
  have 4: "sieve_extensions_set_string example_registry (Some ''fileinto '') = None"
    using t [of "''fileinto ''"] by simp
  from 1 2 3 4 show ?thesis by blast
qed

subsection \<open>Required extensions and the extension list\<close>

text \<open>
  While the array has not moved the required extensions are safe. Take a well-formed
  registry in which no load has failed and no two extensions share an id variable, and a
  registration marked required. A call of \<^verbatim>\<open>sieve_extensions_set_string\<close> returns for the
  NULL string and for every list that ends in a name. Whenever it returns, the
  registration is still required, an enabled extension of it is still enabled, and it is
  enabled if it has an \<^verbatim>\<open>_id\<close> and is not hidden; an extension that the call disabled is
  not required and its name is not in the list. A registration or requirement that
  leaves the array where it is keeps the mark, and \<^verbatim>\<open>sieve_extension_require\<close> then
  returns and, unless the load hook fails, marks the registration of the name.
\<close>

lemma required_stays_enabled_in_place:
  assumes wf: "registry_wf st" and ap: "all_present st" and cd: "cells_distinct st"
    and k: "k < length (extensions st)" and e: "extension (extensions st ! k) = Some e"
    and rq: "required (extensions st ! k)"
  shows "(\<exists>st'. sieve_extensions_set_string st None = Some (Inr st')) \<and>
         (s \<noteq> [] \<and> last s \<noteq> CHR '' '' \<longrightarrow>
            (\<exists>st'. sieve_extensions_set_string st (Some s) = Some (Inr st'))) \<and>
         (\<forall>st'. sieve_extensions_set_string st ext_string = Some (Inr st') \<longrightarrow>
            extension (extensions st' ! k) = Some e \<and> required (extensions st' ! k) \<and>
            (SIEVE_EXT_ENABLED st e \<longrightarrow> SIEVE_EXT_ENABLED st' e) \<and>
            (id_ptr e \<noteq> None \<and> \<not> starts_with_at (name e) \<longrightarrow> SIEVE_EXT_ENABLED st' e) \<and>
            (\<forall>j e'. j < length (extensions st) \<and> extension (extensions st ! j) = Some e' \<and>
               SIEVE_EXT_ENABLED st e' \<and> \<not> SIEVE_EXT_ENABLED st' e' \<longrightarrow>
               \<not> required (extensions st ! j) \<and>
               (\<exists>s'. ext_string = Some s' \<and> name e' \<notin> set (listed_names s')))) \<and>
         (\<forall>i st'. sieve_extension_register st x ld = Inr (i, st') \<longrightarrow>
            required (extensions st' ! k)) \<and>
         (\<forall>i st'. sieve_extension_require st x = Inr (i, st') \<longrightarrow>
            required (extensions st' ! k)) \<and>
         (stays_in_place st x \<longrightarrow>
            (\<exists>i st'. sieve_extension_require st x = Inr (i, st') \<and>
               (i \<noteq> - 1 \<longrightarrow>
                  (\<exists>j. j < length (extensions st') \<and>
                     extension_index st' (name x) = Some (array_buffer st', j) \<and> i = int j \<and>
                     required (extensions st' ! j)))))"
proof -
  have id: "ext_id (extensions st ! j) = int j" if "j < length (extensions st)" for j
    using wf that by (simp add: registry_wf_def ids_dense_nth)
  have A: "\<exists>st'. sieve_extensions_set_string st None = Some (Inr st')"
    using set_string_None_result [OF ap cd] by blast
  have B: "s \<noteq> [] \<and> last s \<noteq> CHR '' '' \<longrightarrow>
            (\<exists>st'. sieve_extensions_set_string st (Some s) = Some (Inr st'))"
    using set_string_Some_result [OF ap cd, of s] by blast
  have C: "extension (extensions st' ! k) = Some e \<and> required (extensions st' ! k) \<and>
            (SIEVE_EXT_ENABLED st e \<longrightarrow> SIEVE_EXT_ENABLED st' e) \<and>
            (id_ptr e \<noteq> None \<and> \<not> starts_with_at (name e) \<longrightarrow> SIEVE_EXT_ENABLED st' e) \<and>
            (\<forall>j e'. j < length (extensions st) \<and> extension (extensions st ! j) = Some e' \<and>
               SIEVE_EXT_ENABLED st e' \<and> \<not> SIEVE_EXT_ENABLED st' e' \<longrightarrow>
               \<not> required (extensions st ! j) \<and>
               (\<exists>s'. ext_string = Some s' \<and> name e' \<notin> set (listed_names s')))"
    if res: "sieve_extensions_set_string st ext_string = Some (Inr st')" for st'
  proof (cases ext_string)
    case None
    from set_string_None_result [OF ap cd] res None have kept: "regs_kept st st'"
      and store: "\<And>j e' a. j < length (extensions st) \<Longrightarrow> extension (extensions st ! j) = Some e' \<Longrightarrow>
        id_ptr e' = Some a \<Longrightarrow> id_store st' a = int j"
      using id by auto
    have en: "SIEVE_EXT_ENABLED st' e'"
      if "j < length (extensions st)" "extension (extensions st ! j) = Some e'"
        "id_ptr e' \<noteq> None" for j e'
      using that store [of j e'] by (auto simp: SIEVE_EXT_ENABLED_def)
    have en': "SIEVE_EXT_ENABLED st e' \<Longrightarrow> id_ptr e' \<noteq> None" for e'
      by (auto simp: SIEVE_EXT_ENABLED_def split: option.splits)
    from regs_kept_nth [OF kept k] e rq en [OF k e] en' en show ?thesis by auto
  next
    case (Some s')
    with res have ret: "s' \<noteq> [] \<and> last s' \<noteq> CHR '' ''"
      using set_string_returns_iff [of st s'] by auto
    let ?ena = "fst (fold_names (extension_index st) (split_at_spaces s') ([], sys_log st))"
    from set_string_Some_result [OF ap cd ret] res Some have kept: "regs_kept st st'"
      and store: "\<And>j e' a. j < length (extensions st) \<Longrightarrow> extension (extensions st ! j) = Some e' \<Longrightarrow>
        id_ptr e' = Some a \<Longrightarrow>
        id_store st' a =
          (if starts_with_at (name e') then id_store st a
           else new_status ?ena (array_buffer st) (extensions st ! j) j)"
      by auto
    have enabled_after: "SIEVE_EXT_ENABLED st' e' \<longleftrightarrow>
        (if starts_with_at (name e') then SIEVE_EXT_ENABLED st e'
         else id_ptr e' \<noteq> None \<and>
              (required (extensions st ! j) \<or> (array_buffer st, j) \<in> set ?ena))"
      if "j < length (extensions st)" "extension (extensions st ! j) = Some e'" for j e'
      using that store [of j e'] id [of j]
      by (cases "id_ptr e'") (auto simp: SIEVE_EXT_ENABLED_def new_status_def)
    have absent: "name e' \<notin> set (listed_names s')"
      if "j < length (extensions st)" "extension (extensions st ! j) = Some e'"
        "\<not> starts_with_at (name e')" "(array_buffer st, j) \<notin> set ?ena" for j e'
      using in_ena_iff [OF wf that(1,2,3), of s' "sys_log st"] that(4) by simp
    have en': "SIEVE_EXT_ENABLED st e' \<Longrightarrow> id_ptr e' \<noteq> None" for e'
      by (auto simp: SIEVE_EXT_ENABLED_def split: option.splits)
    have D: "\<not> required (extensions st ! j) \<and>
               (\<exists>s''. ext_string = Some s'' \<and> name e' \<notin> set (listed_names s''))"
      if "j < length (extensions st) \<and> extension (extensions st ! j) = Some e' \<and>
               SIEVE_EXT_ENABLED st e' \<and> \<not> SIEVE_EXT_ENABLED st' e'" for j e'
    proof -
      from that have j: "j < length (extensions st)" and e': "extension (extensions st ! j) = Some e'"
        and was: "SIEVE_EXT_ENABLED st e'" and isnt: "\<not> SIEVE_EXT_ENABLED st' e'" by simp_all
      from enabled_after [OF j e'] was isnt en' [OF was]
      have vis: "\<not> starts_with_at (name e')" and nr: "\<not> required (extensions st ! j)"
        and ne: "(array_buffer st, j) \<notin> set ?ena"
        by (auto split: if_splits)
      from absent [OF j e' vis ne] nr Some show ?thesis by simp
    qed
    from regs_kept_nth [OF kept k] e rq enabled_after [OF k e] D en' [of e] show ?thesis
      by (auto split: if_splits)
  qed
  have E: "\<forall>i st'. sieve_extension_register st x ld = Inr (i, st') \<longrightarrow>
            required (extensions st' ! k)"
    using register_required [OF k] rq by blast
  have F: "\<forall>i st'. sieve_extension_require st x = Inr (i, st') \<longrightarrow>
            required (extensions st' ! k)"
    using require_required [OF k rq] by blast
  have G: "stays_in_place st x \<longrightarrow>
            (\<exists>i st'. sieve_extension_require st x = Inr (i, st') \<and>
               (i \<noteq> - 1 \<longrightarrow>
                  (\<exists>j. j < length (extensions st') \<and>
                     extension_index st' (name x) = Some (array_buffer st', j) \<and> i = int j \<and>
                     required (extensions st' ! j))))"
  proof
    assume sp: "stays_in_place st x"
    from require_returns [OF wf sp] obtain i st'
      where r: "sieve_extension_require st x = Inr (i, st')" by blast
    from require_marks [OF wf sp r] r
    show "\<exists>i st'. sieve_extension_require st x = Inr (i, st') \<and>
               (i \<noteq> - 1 \<longrightarrow>
                  (\<exists>j. j < length (extensions st') \<and>
                     extension_index st' (name x) = Some (array_buffer st', j) \<and> i = int j \<and>
                     required (extensions st' ! j)))"
      by blast
  qed
  from A B C E F G show ?thesis by blast
qed

lemma plugin_ext_fields:
  "id_ptr (plugin_ext i) = Some i" "load (plugin_ext i) = None"
  "name (plugin_ext i) = name (plugin_ext j) \<longleftrightarrow> i = j"
  "\<not> starts_with_at (name (plugin_ext i))"
  "name (plugin_ext 0) = ''plugin-i''"
proof -
  show "name (plugin_ext i) = name (plugin_ext j) \<longleftrightarrow> i = j"
  proof
    assume "name (plugin_ext i) = name (plugin_ext j)"
    then have "length (replicate (Suc i) (CHR ''i'')) = length (replicate (Suc j) (CHR ''i''))"
      by (simp add: plugin_ext_def)
    then show "i = j" by simp
  qed simp
qed (simp_all add: plugin_ext_def)

lemma list_update_last: "length xs = n \<Longrightarrow> (xs @ [a])[n := b] = xs @ [b]"
  by auto

lemma core_registry_init:
  "sieve_extensions_init example_env empty_registry = Inr (True, core_registry)"
  and core_registry_facts:
  "length (extensions core_registry) = 21" "array_buffer core_registry = 0"
  "array_grow core_registry = (\<lambda>n b. Suc b)" "id_store core_registry = (\<lambda>a. - 1)"
  "all_present core_registry" "List.map_filter reg_cell (extensions core_registry) = []"
  "extension_index core_registry (name (plugin_ext i)) = None"
proof -
  have "\<exists>s. sieve_extensions_init example_env empty_registry = Inr (True, s) \<and>
     length (extensions s) = 21 \<and> array_buffer s = 0 \<and> array_grow s = (\<lambda>n b. Suc b) \<and>
     id_store s = (\<lambda>a. - 1) \<and> all_present s \<and> List.map_filter reg_cell (extensions s) = [] \<and>
     (\<forall>i. extension_index s (name (plugin_ext i)) = None)"
    by (simp add: sieve_extensions_init_def sieve_extensions_init_registry_def
        sieve_core_extensions_def sieve_depricated_extensions_def example_env_def
        empty_registry_def reg_defs comparator_i_octet_extension_def
        comparator_i_ascii_casemap_extension_def all_present_def List.map_filter_simps
        reg_cell_def plugin_ext_def)
  then obtain s where init: "sieve_extensions_init example_env empty_registry = Inr (True, s)"
    and facts: "length (extensions s) = 21" "array_buffer s = 0" "array_grow s = (\<lambda>n b. Suc b)"
      "id_store s = (\<lambda>a. - 1)" "all_present s" "List.map_filter reg_cell (extensions s) = []"
      "\<And>i. extension_index s (name (plugin_ext i)) = None"
    by blast
  from init have s: "core_registry = s" by (simp add: core_registry_def initialised_def)
  with init facts
  show "sieve_extensions_init example_env empty_registry = Inr (True, core_registry)"
    "length (extensions core_registry) = 21" "array_buffer core_registry = 0"
    "array_grow core_registry = (\<lambda>n b. Suc b)" "id_store core_registry = (\<lambda>a. - 1)"
    "all_present core_registry" "List.map_filter reg_cell (extensions core_registry) = []"
    "extension_index core_registry (name (plugin_ext i)) = None"
    by simp_all
qed

lemma plugins_registered_core: "plugins_registered 0 core_registry"
  by (simp add: plugins_registered_def core_registry_facts)

lemma plugins_registered_step:
  assumes "plugins_registered n st"
  shows "\<exists>st'. sieve_extension_register st (plugin_ext n) True = Inr (int (21 + n), st') \<and>
           plugins_registered (Suc n) st'"
proof -
  let ?f = "\<lambda>i. \<lparr>extension = Some (plugin_ext i), ext_id = int (21 + i), required = False,
      loaded = True\<rparr>"
  define m where "m = 21 + n"
  define b where "b = (if m < 30 then 0 else m - 29)"
  from assms have exts: "extensions st = extensions core_registry @ map ?f [0..<n]"
    and buf: "array_buffer st = (if 21 + n \<le> 30 then 0 else 21 + n - 30)"
    and grow: "array_grow st = (\<lambda>n b. Suc b)"
    and ix: "\<And>i. extension_index st (name (plugin_ext i)) =
        (if i < n then Some (if 21 + i < 30 then 0 else 21 + i - 29, 21 + i) else None)"
    and store: "id_store st = (\<lambda>a. if a < n then int (21 + a) else - 1)"
    by (simp_all add: plugins_registered_def)
  have len: "length (extensions st) = m" by (simp add: exts core_registry_facts m_def)
  have fresh: "extension_index st (name (plugin_ext n)) = None" by (simp add: ix)
  have nb: "(if m < 30 then array_buffer st else array_grow st m (array_buffer st)) = b"
    by (auto simp: buf grow m_def b_def)
  let ?new = "\<lparr>extension = None, ext_id = int m, required = False, loaded = False\<rparr>"
  let ?st1 = "st\<lparr>extensions := extensions st @ [?new], array_buffer := b,
      extension_index := (extension_index st)(name (plugin_ext n) \<mapsto> (b, m))\<rparr>"
  let ?st' = "st\<lparr>extensions := extensions st @ [?new\<lparr>loaded := True, extension := Some (plugin_ext n)\<rparr>],
      array_buffer := b,
      extension_index := (extension_index st)(name (plugin_ext n) \<mapsto> (b, m)),
      id_store := (id_store st)(n := int m)\<rparr>"
  have rin: "register_if_new st (plugin_ext n) = ((b, m), ?st1)"
    unfolding register_if_new_def fresh len Let_def nb by simp
  have at: "ereg_at ?st1 (b, m) = Inr m"
    by (simp add: ereg_at_def len)
  have nth: "(extensions st @ [?new]) ! m = ?new"
    using len by (simp add: nth_append)
  have en: "enable_registered ?st1 m (plugin_ext n) True = (Some m, ?st')"
    by (simp add: enable_registered_def sieve_extension_load_def plugin_ext_fields nth Let_def
        list_update_last [OF len])
  have reg: "sieve_extension_register st (plugin_ext n) True = Inr (int m, ?st')"
    unfolding sieve_extension_register_def sieve_extension_register_impl_def rin
    by (simp add: at en nth_append len)
  have "plugins_registered (Suc n) ?st'"
    unfolding plugins_registered_def
  proof (intro conjI allI)
    show "extensions ?st' = extensions core_registry @ map ?f [0..<Suc n]"
      by (simp add: exts m_def)
    show "array_buffer ?st' = (if 21 + Suc n \<le> 30 then 0 else 21 + Suc n - 30)"
      by (auto simp: m_def b_def)
    show "array_grow ?st' = (\<lambda>n b. Suc b)" by (simp add: grow)
    show "id_store ?st' = (\<lambda>a. if a < Suc n then int (21 + a) else - 1)"
      by (auto simp: store fun_eq_iff m_def)
    fix i
    show "extension_index ?st' (name (plugin_ext i)) =
        (if i < Suc n then Some (if 21 + i < 30 then 0 else 21 + i - 29, 21 + i) else None)"
      by (auto simp: ix plugin_ext_fields m_def b_def)
  qed
  with reg show ?thesis unfolding m_def by blast
qed

lemma plugins_registered_each:
  "plugins_registered k st \<Longrightarrow>
     \<exists>st'. register_each st (map plugin_ext [k..<k + m]) = Inr st' \<and> plugins_registered (k + m) st'"
proof (induction m arbitrary: k st)
  case 0
  then show ?case by simp
next
  case (Suc m)
  from plugins_registered_step [OF Suc.prems] obtain st1
    where reg: "sieve_extension_register st (plugin_ext k) True = Inr (int (21 + k), st1)"
    and inv: "plugins_registered (Suc k) st1" by blast
  from Suc.IH [OF inv] obtain st'
    where each: "register_each st1 (map plugin_ext [Suc k..<Suc k + m]) = Inr st'"
    and inv': "plugins_registered (Suc k + m) st'" by blast
  have "[k..<k + Suc m] = k # [Suc k..<Suc k + m]" by (simp add: upt_conv_Cons)
  then have "register_each st (map plugin_ext [k..<k + Suc m]) =
      register_each st1 (map plugin_ext [Suc k..<Suc k + m])"
    by (simp only: list.map register_each.simps reg sum.case prod.case)
  with each inv' show ?case by auto
qed

lemma grown_registry_built:
  "register_each core_registry (map plugin_ext [0..<10]) = Inr grown_registry"
  and grown_registry_plugins: "plugins_registered 10 grown_registry"
proof -
  from plugins_registered_each [OF plugins_registered_core, of 10] obtain st'
    where each: "register_each core_registry (map plugin_ext [0..<10]) = Inr st'"
    and inv: "plugins_registered 10 st'" by auto
  from each have "grown_registry = st'" by (simp add: grown_registry_def)
  with each inv show "register_each core_registry (map plugin_ext [0..<10]) = Inr grown_registry"
    and "plugins_registered 10 grown_registry" by simp_all
qed

lemma map_filter_Some: "List.map_filter Some xs = xs"
  by (induction xs) (simp_all add: List.map_filter_simps)

lemma map_filter_append:
  "List.map_filter f (xs @ ys) = List.map_filter f xs @ List.map_filter f ys"
  by (simp add: List.map_filter_def)

lemma plugins_registered_facts:
  assumes "plugins_registered n st"
  shows "length (extensions st) = 21 + n" and "all_present st" and "cells_distinct st"
    and "i < n \<Longrightarrow> extension (extensions st ! (21 + i)) = Some (plugin_ext i)"
    and "i < n \<Longrightarrow> \<not> required (extensions st ! (21 + i))"
    and "i < n \<Longrightarrow> SIEVE_EXT_ENABLED st (plugin_ext i)"
proof -
  let ?f = "\<lambda>i. \<lparr>extension = Some (plugin_ext i), ext_id = int (21 + i), required = False,
      loaded = True\<rparr>"
  from assms have exts: "extensions st = extensions core_registry @ map ?f [0..<n]"
    and store: "id_store st = (\<lambda>a. if a < n then int (21 + a) else - 1)"
    by (simp_all add: plugins_registered_def)
  show "length (extensions st) = 21 + n" by (simp add: exts core_registry_facts)
  show "all_present st"
    using core_registry_facts(5) by (auto simp: all_present_def exts)
  have "List.map_filter reg_cell (extensions st) = [0..<n]"
    by (simp add: exts map_filter_append core_registry_facts map_filter_map reg_cell_def
        plugin_ext_fields map_filter_Some)
  then show "cells_distinct st" by (simp add: cells_distinct_def)
  show "i < n \<Longrightarrow> extension (extensions st ! (21 + i)) = Some (plugin_ext i)"
    by (simp add: exts nth_append core_registry_facts)
  show "i < n \<Longrightarrow> \<not> required (extensions st ! (21 + i))"
    by (simp add: exts nth_append core_registry_facts)
  show "i < n \<Longrightarrow> SIEVE_EXT_ENABLED st (plugin_ext i)"
    by (simp add: SIEVE_EXT_ENABLED_def plugin_ext_fields store)
qed

text \<open>
  C5. The code does not keep what the claim says once the array has grown beyond the 30
  elements it was created for. \<^verbatim>\<open>sieve_extensions_init\<close> leaves 21 registrations; after
  ten more the array has moved, and the hash table still holds the pointers into the
  allocation it has left. The first of the ten extensions is enabled;
  \<^verbatim>\<open>sieve_extension_require\<close> for it follows such a dangling pointer, so it cannot mark the
  registration in the array; and \<^verbatim>\<open>sieve_extensions_set_string\<close> with a list that names
  the extension finds the old pointer different from the address of the registration
  and disables the extension.
\<close>

theorem sieve_extension_require_after_growth:
  "sieve_extensions_init example_env empty_registry = Inr (True, core_registry) \<and>
   length (extensions core_registry) = 21 \<and>
   register_each core_registry (map plugin_ext [0..<10]) = Inr grown_registry \<and>
   length (extensions grown_registry) = 31 \<and>
   extension (extensions grown_registry ! 21) = Some (plugin_ext 0) \<and>
   SIEVE_EXT_ENABLED grown_registry (plugin_ext 0) \<and>
   sieve_extension_require grown_registry (plugin_ext 0) = Inl Dangling_pointer \<and>
   enabled_after grown_registry (Some ''plugin-i'') (plugin_ext 0) = Some False"
proof -
  note inv = grown_registry_plugins
  note facts = plugins_registered_facts [OF inv]
  have ix: "extension_index grown_registry ''plugin-i'' = Some (0, 21)"
    using inv by (auto simp: plugins_registered_def plugin_ext_fields(5) [symmetric])
  have buf: "array_buffer grown_registry = 1"
    using inv by (simp add: plugins_registered_def)
  have req: "sieve_extension_require grown_registry (plugin_ext 0) = Inl Dangling_pointer"
    by (simp add: sieve_extension_require_def sieve_extension_register_impl_def register_if_new_def
        plugin_ext_fields ix ereg_at_def buf)
  have s: "''plugin-i'' \<noteq> [] \<and> last ''plugin-i'' \<noteq> CHR '' ''" by simp
  let ?ena = "fst (fold_names (extension_index grown_registry) (split_at_spaces ''plugin-i'')
      ([], sys_log grown_registry))"
  have ena: "?ena = [(0, 21)]"
    by (simp add: fold_names_def set_string_name_def ix)
  from set_string_Some_result [OF facts(2,3) s] obtain st'
    where res: "sieve_extensions_set_string grown_registry (Some ''plugin-i'') = Some (Inr st')"
    and store: "\<forall>k e a. k < length (extensions grown_registry) \<longrightarrow>
        extension (extensions grown_registry ! k) = Some e \<longrightarrow> id_ptr e = Some a \<longrightarrow>
        id_store st' a =
          (if starts_with_at (name e) then id_store grown_registry a
           else new_status ?ena (array_buffer grown_registry) (extensions grown_registry ! k) k)"
    by blast
  have e0: "extension (extensions grown_registry ! 21) = Some (plugin_ext 0)"
    and r0: "\<not> required (extensions grown_registry ! 21)"
    using facts(4) [of 0] facts(5) [of 0] by simp_all
  from store [rule_format, of 21 "plugin_ext 0" 0, unfolded ena] facts(1) e0 r0
  have "id_store st' 0 = - 1"
    by (simp add: plugin_ext_fields buf new_status_def)
  then have dis: "enabled_after grown_registry (Some ''plugin-i'') (plugin_ext 0) = Some False"
    by (simp add: enabled_after_def res SIEVE_EXT_ENABLED_def plugin_ext_fields)
  from core_registry_init core_registry_facts(1) grown_registry_built facts(1) e0
    facts(6) [of 0] req dis
  show ?thesis by simp
qed

end
